theory Spec2Isabelle
  imports Main "HOL-Library.Word" "HOL-Library.Sublist"
begin

section \<open>The fsutil copy protocol: sender and receiver of \<open>copy.go\<close>\<close>

text \<open>
  The theory embeds the two endpoints of the directory synchronisation protocol of
  \<^verbatim>\<open>copy.go\<close>: \<^verbatim>\<open>Send\<close> with its message loop \<^verbatim>\<open>sender.run\<close>, the walk task
  \<^verbatim>\<open>sender.send\<close> and the content task \<^verbatim>\<open>sender.sendFile\<close>, and \<^verbatim>\<open>Receive\<close> with
  its message loop \<^verbatim>\<open>receiver.run\<close>.

  Every goroutine is embedded as a sequential state-passing function over the state it
  shares with the others. The outside world is scripted: the transport by the list of
  results of the successive \<^verbatim>\<open>RecvMsg\<close> calls and the list of results of the successive
  \<^verbatim>\<open>SendMsg\<close> calls, the walk primitive by the list of arguments it passes to its callback,
  an opened file by the list of results of its successive \<^verbatim>\<open>Read\<close> calls. What a
  goroutine does to the world is appended to a trace of events. A theorem about one of
  these functions holds from every state, hence whatever the other goroutines did to
  the shared state before.
\<close>

subsection \<open>Messages\<close>

type_synonym byte = "8 word"
type_synonym uint32 = "32 word"

text \<open>
  Modelled from the spec: the \<^verbatim>\<open>Stat\<close> message of the wire format, whose declaration is
  generated code. The entry metadata holds the path, the mode and type bits and the
  other stat fields; \<^verbatim>\<open>copy.go\<close> reads \<^verbatim>\<open>Path\<close> and \<^verbatim>\<open>Mode\<close> only.
\<close>

record Stat =
  Path :: string
  Mode :: uint32
  Uid :: uint32
  Gid :: uint32
  Size :: int
  ModTime :: int
  Linkname :: string

datatype Packet_PacketType = PACKET_STAT | PACKET_REQ | PACKET_DATA | PACKET_FIN

text \<open>
  Modelled from the spec: the \<^verbatim>\<open>Packet\<close> message. \<^verbatim>\<open>Stat\<close> is a pointer, \<^verbatim>\<open>nil\<close> being
  \<open>None\<close>; the zero value of the other fields is \<open>0\<close> and the empty list.
\<close>

record Packet =
  Type :: Packet_PacketType
  Stat :: "Stat option"
  ID :: uint32
  Data :: "byte list"

subsection \<open>Errors\<close>

datatype error =
    InvalidFileId uint32
  | InvalidFileRequestID uint32
  | InvalidFileRequest string
  | Wrapped error string
  | ErrClosedPipe
  | ErrShortWrite
  | EOF
  | TransportError string
  | OSError string

text \<open>\<^verbatim>\<open>errors.Wrapf\<close> returns \<^verbatim>\<open>nil\<close> when the error it wraps is \<^verbatim>\<open>nil\<close>.\<close>

definition Wrapf :: "error option \<Rightarrow> string \<Rightarrow> error option" where
  "Wrapf err msg = (case err of None \<Rightarrow> None | Some e \<Rightarrow> Some (Wrapped e msg))"

definition digit_char :: "nat \<Rightarrow> char" where
  "digit_char d =
     (if d = 0 then CHR ''0'' else if d = 1 then CHR ''1'' else if d = 2 then CHR ''2''
      else if d = 3 then CHR ''3'' else if d = 4 then CHR ''4'' else if d = 5 then CHR ''5''
      else if d = 6 then CHR ''6'' else if d = 7 then CHR ''7'' else if d = 8 then CHR ''8''
      else CHR ''9'')"

text \<open>The verb \<^verbatim>\<open>%d\<close> of the format functions, on an unsigned number.\<close>

fun decimal :: "nat \<Rightarrow> string" where
  "decimal n = (if n < 10 then [digit_char n] else decimal (n div 10) @ [digit_char (n mod 10)])"

declare decimal.simps [simp del]

text \<open>
  The text of an error, \<^verbatim>\<open>err.Error()\<close>. The receiver formats a \<^verbatim>\<open>uint32\<close> with the
  verb \<^verbatim>\<open>%s\<close>, which prints it in the bad-verb form.
\<close>

fun Error :: "error \<Rightarrow> string" where
  "Error (InvalidFileId n) = ''invalid file id '' @ decimal (unat n)"
| "Error (InvalidFileRequestID n) = ''invalid file request %!s(uint32='' @ decimal (unat n) @ '')''"
| "Error (InvalidFileRequest p) = ''invalid file request '' @ p"
| "Error (Wrapped e msg) = msg @ '': '' @ Error e"
| "Error ErrClosedPipe = ''io: read/write on closed pipe''"
| "Error ErrShortWrite = ''short write''"
| "Error EOF = ''EOF''"
| "Error (TransportError m) = m"
| "Error (OSError m) = m"

subsection \<open>The world: transport results, events\<close>

datatype Context = Background | WithCancel Context | Canceled

fun Done :: "Context \<Rightarrow> bool" where
  "Done Background = False"
| "Done (WithCancel parent) = Done parent"
| "Done Canceled = True"

datatype task = SendTask | SendFileTask uint32 string | DiffTask | FinTask

text \<open>
  What an endpoint does to the world: a message the transport accepted, a call of the
  progress callback with its two arguments, a goroutine started with \<^verbatim>\<open>go\<close>, an error
  logged with \<^verbatim>\<open>logrus.Error\<close>.
\<close>

datatype event = Sent Packet | Progress int bool | Go task | Logged error

text \<open>
  The \<^verbatim>\<open>Stream\<close> a caller hands to \<^verbatim>\<open>Send\<close> or \<^verbatim>\<open>Receive\<close>: the results of its
  successive \<^verbatim>\<open>RecvMsg\<close> calls (an error, or the message stored in the argument) and of
  its successive \<^verbatim>\<open>SendMsg\<close> calls (\<open>None\<close> is \<^verbatim>\<open>nil\<close>). A \<^verbatim>\<open>SendMsg\<close> beyond the end
  of the script succeeds. A message loop that has used up the \<^verbatim>\<open>RecvMsg\<close> results is
  blocked in \<^verbatim>\<open>RecvMsg\<close>.
\<close>

type_synonym recv = "error + Packet"

record Stream =
  RecvMsg_results :: "recv list"
  SendMsg_results :: "error option list"

record env =
  send_results :: "error option list"
  trace :: "event list"

definition Stream_SendMsg :: "Packet \<Rightarrow> 'a env_scheme \<Rightarrow> error option \<times> 'a env_scheme" where
  "Stream_SendMsg m e =
     (case send_results e of
        [] \<Rightarrow> (None, e\<lparr>trace := trace e @ [Sent m]\<rparr>)
      | None # rest \<Rightarrow> (None, e\<lparr>send_results := rest, trace := trace e @ [Sent m]\<rparr>)
      | Some err # rest \<Rightarrow> (Some err, e\<lparr>send_results := rest\<rparr>))"

text \<open>
  \<^verbatim>\<open>syncStream.SendMsg\<close>: the call of the embedded stream between \<^verbatim>\<open>ss.mu.Lock()\<close> and
  \<^verbatim>\<open>ss.mu.Unlock()\<close>. In a sequential embedding the lock is always free.
\<close>

definition SendMsg :: "Packet \<Rightarrow> 'a env_scheme \<Rightarrow> error option \<times> 'a env_scheme" where
  "SendMsg m e = Stream_SendMsg m e"

text \<open>
  The result of a message loop on a script of \<^verbatim>\<open>RecvMsg\<close> results: it has returned, it
  is waiting in \<^verbatim>\<open>RecvMsg\<close> for the next result, it has panicked, or it is blocked for
  ever in a call that never returns.
\<close>

datatype outcome = Returned "error option" | Waiting | Panicked | Blocked

subsection \<open>The sender\<close>

text \<open>
  The sender. Go's \<^verbatim>\<open>int\<close> has the width of the platform: \<^verbatim>\<open>progressCurrent\<close> is a word
  of any width \<open>'w\<close>, its addition wraps around, and the callback receives its signed
  value. \<^verbatim>\<open>progressCb\<close> is \<open>True\<close> when the callback is not \<^verbatim>\<open>nil\<close>; a call of it is the
  event \<open>Progress\<close>.
\<close>

record (overloaded) ('w::len) sender = env +
  ctx :: Context
  root :: string
  files :: "uint32 \<rightharpoonup> string"
  progressCb :: bool
  progressCurrent :: "'w word"

definition updateProgress :: "'w::len word \<Rightarrow> bool \<Rightarrow> 'w sender \<Rightarrow> 'w sender" where
  "updateProgress n final s =
     (if progressCb s
      then (let s1 = s\<lparr>progressCurrent := progressCurrent s + n\<rparr>
            in s1\<lparr>trace := trace s1 @ [Progress (sint (progressCurrent s1)) final]\<rparr>)
      else s)"

text \<open>
  \<^verbatim>\<open>updateProgress\<close> takes no lock, and the walk task, the content tasks and
  \<^verbatim>\<open>sender.run\<close> call it from their own goroutines. Its two statements, for runs in
  which calls overlap: the addition \<^verbatim>\<open>s.progressCurrent += size\<close>, and the call of the
  callback with the count \<open>c\<close> that was read as its argument before the call.
\<close>

definition updateProgress_add :: "'w::len word \<Rightarrow> 'w sender \<Rightarrow> 'w sender" where
  "updateProgress_add n s = s\<lparr>progressCurrent := progressCurrent s + n\<rparr>"

definition updateProgress_call :: "'w::len word \<Rightarrow> bool \<Rightarrow> 'w sender \<Rightarrow> 'w sender" where
  "updateProgress_call c final s = s\<lparr>trace := trace s @ [Progress (sint c) final]\<rparr>"

text \<open>
  \<^verbatim>\<open>sender.queue\<close>: under \<^verbatim>\<open>s.mu\<close>, look the id up and delete it; then start the content
  task.
\<close>

definition queue :: "uint32 \<Rightarrow> 'w::len sender \<Rightarrow> error option \<times> 'w sender" where
  "queue fid s =
     (case files s fid of
        None \<Rightarrow> (Some (InvalidFileId fid), s)
      | Some p \<Rightarrow>
          (let s1 = s\<lparr>files := (files s)(fid := None)\<rparr>
           in (None, s1\<lparr>trace := trace s1 @ [Go (SendFileTask fid p)]\<rparr>)))"

text \<open>
  The loop of \<^verbatim>\<open>sender.run\<close>, one iteration for each \<^verbatim>\<open>RecvMsg\<close> result. A failed
  \<^verbatim>\<open>RecvMsg\<close> and a message of another type fall through to the next iteration.
\<close>

fun run_loop :: "recv list \<Rightarrow> 'w::len sender \<Rightarrow> outcome \<times> 'w sender" where
  "run_loop [] s = (Waiting, s)"
| "run_loop (Inl err # rest) s = run_loop rest s"
| "run_loop (Inr p # rest) s =
     (case Type p of
        PACKET_REQ \<Rightarrow>
          (case queue (ID p) s of
             (Some err, s1) \<Rightarrow> (Returned (Some err), s1)
           | (None, s1) \<Rightarrow> run_loop rest s1)
      | PACKET_FIN \<Rightarrow>
          (case SendMsg \<lparr>Type = PACKET_FIN, Stat = None, ID = 0, Data = []\<rparr> s of
             (r, s1) \<Rightarrow> (Returned r, s1))
      | PACKET_STAT \<Rightarrow> run_loop rest s
      | PACKET_DATA \<Rightarrow> run_loop rest s)"

text \<open>
  \<^verbatim>\<open>sender.run\<close>: start the walk task, run the loop, and on return call the deferred
  \<^verbatim>\<open>updateProgress(0, true)\<close>.
\<close>

definition run :: "recv list \<Rightarrow> 'w::len sender \<Rightarrow> outcome \<times> 'w sender" where
  "run rs s =
     (case run_loop rs (s\<lparr>trace := trace s @ [Go SendTask]\<rparr>) of
        (Returned r, s1) \<Rightarrow> (Returned r, updateProgress 0 True s1)
      | (Waiting, s1) \<Rightarrow> (Waiting, s1)
      | (Panicked, s1) \<Rightarrow> (Panicked, s1)
      | (Blocked, s1) \<Rightarrow> (Blocked, s1))"

definition Send :: "Context \<Rightarrow> Stream \<Rightarrow> string \<Rightarrow> bool \<Rightarrow> outcome \<times> 'w::len sender" where
  "Send ctx0 conn root0 cb =
     run (RecvMsg_results conn)
       \<lparr>send_results = SendMsg_results conn, trace = [],
        ctx = WithCancel ctx0, root = root0, files = Map.empty,
        progressCb = cb, progressCurrent = 0\<rparr>"

subsection \<open>The walk task of the sender\<close>

text \<open>
  What \<^verbatim>\<open>fi.Sys()\<close> holds: the \<^verbatim>\<open>Stat\<close> of the entry, or a value of another type, on
  which the type assertion of \<^verbatim>\<open>sender.send\<close> fails.
\<close>

datatype FileInfo = StatInfo Stat | OtherInfo

fun Sys :: "FileInfo \<Rightarrow> Stat option" where
  "Sys (StatInfo st) = Some st"
| "Sys OtherInfo = None"

text \<open>
  Modelled from the spec: the walk primitive \<^verbatim>\<open>Walk\<close>, which is not in \<^verbatim>\<open>copy.go\<close>. For
  a root and its options it produces, for each entry in order, a path, a file info and
  an error, and aborts on the first error its callback returns. A walk is the list of
  the arguments of the successive calls of the callback.
\<close>

type_synonym walk_item = "string \<times> FileInfo \<times> error option"

fun Walk :: "walk_item list \<Rightarrow> (string \<Rightarrow> FileInfo \<Rightarrow> error option \<Rightarrow> 'st \<Rightarrow> error option \<times> 'st)
             \<Rightarrow> 'st \<Rightarrow> error option \<times> 'st" where
  "Walk [] fn st = (None, st)"
| "Walk ((path, fi, err) # rest) fn st =
     (case fn path fi err st of
        (None, st1) \<Rightarrow> Walk rest fn st1
      | (Some e, st1) \<Rightarrow> (Some e, st1))"

text \<open>
  The callback of \<^verbatim>\<open>sender.send\<close>. Its state is the local counter \<^verbatim>\<open>i\<close> of \<^verbatim>\<open>send\<close> and
  the sender. \<open>sz\<close> is \<^verbatim>\<open>Packet.Size\<close>, the size estimator of the generated code, a
  parameter here: a number of bytes, converted to an \<^verbatim>\<open>int\<close>. Where the type assertion fails, \<^verbatim>\<open>err\<close> is \<^verbatim>\<open>nil\<close>, and so is what
  \<^verbatim>\<open>errors.Wrapf\<close> makes of it.
\<close>

definition send_cb :: "(Packet \<Rightarrow> nat) \<Rightarrow> string \<Rightarrow> FileInfo \<Rightarrow> error option
                       \<Rightarrow> uint32 \<times> 'w::len sender \<Rightarrow> error option \<times> (uint32 \<times> 'w sender)" where
  "send_cb sz path fi err st =
     (case st of (i, s) \<Rightarrow>
        (case err of
           Some e \<Rightarrow> (Some e, (i, s))
         | None \<Rightarrow>
             (case Sys fi of
                None \<Rightarrow> (Wrapf err (''invalid fileinfo without stat info: '' @ path), (i, s))
              | Some stat \<Rightarrow>
                  (let p = \<lparr>Type = PACKET_STAT, Stat = Some stat, ID = 0, Data = []\<rparr>;
                       s1 = s\<lparr>files := (files s)(i \<mapsto> Path stat)\<rparr>;
                       i1 = i + 1;
                       s2 = updateProgress (of_nat (sz p)) False s1
                   in (case SendMsg p s2 of
                         (r, s3) \<Rightarrow> (Wrapf r (''failed to send stat '' @ path), (i1, s3)))))))"

definition send :: "(Packet \<Rightarrow> nat) \<Rightarrow> walk_item list \<Rightarrow> 'w::len sender
                    \<Rightarrow> error option \<times> 'w sender" where
  "send sz walk s =
     (case Walk walk (send_cb sz) (0, s) of
        (Some err, (i, s1)) \<Rightarrow> (Some err, s1)
      | (None, (i, s1)) \<Rightarrow>
          (case SendMsg \<lparr>Type = PACKET_STAT, Stat = None, ID = 0, Data = []\<rparr> s1 of
             (r, s2) \<Rightarrow> (Wrapf r ''failed to send last stat'', s2)))"

subsection \<open>The content task of the sender\<close>

definition fileSender_Write :: "(Packet \<Rightarrow> nat) \<Rightarrow> uint32 \<Rightarrow> byte list \<Rightarrow> 'w::len sender
                                \<Rightarrow> (nat \<times> error option) \<times> 'w sender" where
  "fileSender_Write sz fid dt s =
     (if length dt = 0 then ((0, None), s)
      else (let p = \<lparr>Type = PACKET_DATA, Stat = None, ID = fid, Data = dt\<rparr>
            in (case SendMsg p s of
                  (Some err, s1) \<Rightarrow> ((0, Some err), s1)
                | (None, s1) \<Rightarrow> ((length dt, None), updateProgress (of_nat (sz p)) False s1))))"

text \<open>
  An opened file: the results of its successive \<^verbatim>\<open>Read\<close> calls, each the bytes read into
  the buffer (at most the \<^verbatim>\<open>32*1<<10\<close> bytes of a buffer of \<^verbatim>\<open>bufPool\<close>) and the error.
  A \<^verbatim>\<open>Read\<close> beyond the end of the script returns no bytes and \<^verbatim>\<open>io.EOF\<close>.
\<close>

type_synonym File = "(byte list \<times> error option) list"

text \<open>
  The loop of \<^verbatim>\<open>io.CopyBuffer\<close> of the Go library, for a writer that is no
  \<^verbatim>\<open>io.ReaderFrom\<close>, as \<^verbatim>\<open>fileSender\<close> is (where a file is an \<^verbatim>\<open>io.WriterTo\<close>, it falls
  back to the same loop for such a writer): the bytes of a read are written before its
  error is looked at, a failed or short write ends the copy with its error, \<^verbatim>\<open>io.EOF\<close>
  ends it with \<^verbatim>\<open>nil\<close>.
\<close>

fun CopyBuffer :: "(byte list \<Rightarrow> 'st \<Rightarrow> (nat \<times> error option) \<times> 'st) \<Rightarrow> File \<Rightarrow> 'st
                   \<Rightarrow> error option \<times> 'st" where
  "CopyBuffer dst [] st = (None, st)"
| "CopyBuffer dst ((dt, er) # rest) st =
     (if 0 < length dt
      then (case dst dt st of
              ((nw, Some ew), st1) \<Rightarrow> (Some ew, st1)
            | ((nw, None), st1) \<Rightarrow>
                (if length dt \<noteq> nw then (Some ErrShortWrite, st1)
                 else (case er of
                         None \<Rightarrow> CopyBuffer dst rest st1
                       | Some e \<Rightarrow> (if e = EOF then None else Some e, st1))))
      else (case er of
              None \<Rightarrow> CopyBuffer dst rest st
            | Some e \<Rightarrow> (if e = EOF then None else Some e, st)))"

text \<open>
  \<^verbatim>\<open>sender.sendFile\<close>. \<open>fs\<close> is the file system: \<open>fs dir p\<close> is the result of
  \<^verbatim>\<open>os.Open(filepath.Join(dir, p))\<close>.
\<close>

definition sendFile :: "(Packet \<Rightarrow> nat) \<Rightarrow> (string \<Rightarrow> string \<Rightarrow> error + File) \<Rightarrow> uint32 \<Rightarrow> string
                        \<Rightarrow> 'w::len sender \<Rightarrow> error option \<times> 'w sender" where
  "sendFile sz fs fid p s =
     (case fs (root s) p of
        Inr f \<Rightarrow>
          (case CopyBuffer (fileSender_Write sz fid) f s of
             (Some err, s1) \<Rightarrow> (Some err, s1)
           | (None, s1) \<Rightarrow> SendMsg \<lparr>Type = PACKET_DATA, Stat = None, ID = fid, Data = []\<rparr> s1)
      | Inl err \<Rightarrow> SendMsg \<lparr>Type = PACKET_DATA, Stat = None, ID = fid, Data = []\<rparr> s)"

subsection \<open>The receiver\<close>

unbundle bit_operations_syntax

text \<open>The type bits of \<^verbatim>\<open>os.FileMode\<close>, from the Go library.\<close>

definition ModeDir :: uint32 where "ModeDir = push_bit 31 1"
definition ModeSymlink :: uint32 where "ModeSymlink = push_bit 27 1"
definition ModeDevice :: uint32 where "ModeDevice = push_bit 26 1"
definition ModeNamedPipe :: uint32 where "ModeNamedPipe = push_bit 25 1"

text \<open>
  The write end of an \<^verbatim>\<open>io.Pipe\<close> of the Go library: the bytes that went through the
  pipe so far, whether the pipe is closed, and whether its read end is being read, as
  it is while the copy of the function of \<^verbatim>\<open>getAsyncDataFunc\<close> runs. The pipe has no
  buffer: a write returns \<^verbatim>\<open>nil\<close> when the reader has taken the bytes, fails on a closed
  pipe, and on an open pipe that nobody reads it never returns, which is the result
  \<open>None\<close>. \<^verbatim>\<open>Close\<close> always returns \<^verbatim>\<open>nil\<close>.
\<close>

record PipeWriter =
  written :: "byte list"
  closed :: bool
  reading :: bool

definition PipeWriter_Write :: "byte list \<Rightarrow> PipeWriter \<Rightarrow> error option option \<times> PipeWriter" where
  "PipeWriter_Write dt pw =
     (if closed pw then (Some (Some ErrClosedPipe), pw)
      else if reading pw then (Some None, pw\<lparr>written := written pw @ dt\<rparr>)
      else (None, pw))"

definition PipeWriter_Close :: "PipeWriter \<Rightarrow> error option \<times> PipeWriter" where
  "PipeWriter_Close pw = (None, pw\<lparr>closed := True\<rparr>)"

text \<open>The struct \<^verbatim>\<open>currentPath\<close> with its fields \<^verbatim>\<open>path\<close> and \<^verbatim>\<open>f\<close>.\<close>

record currentPath =
  path_cp :: string
  f_cp :: FileInfo

text \<open>
  The receiver. \<^verbatim>\<open>files\<close> and \<^verbatim>\<open>ctx\<close> carry a suffix, the sender having fields of these
  names. A pipe lives in the table \<^verbatim>\<open>pipes\<close> that points to it. The channel
  \<^verbatim>\<open>walkChan\<close> is the list of the values sent on it and whether it is closed; that a
  send blocks while 128 values are unread, and that \<^verbatim>\<open><-r.walkDone\<close> blocks until the
  diff task is done, is not modelled: the diff task is taken to keep up.
\<close>

record receiver = env +
  dest :: string
  ctx_r :: Context
  files_r :: "string \<rightharpoonup> uint32"
  pipes :: "uint32 \<rightharpoonup> PipeWriter"
  walkChan :: "currentPath list"
  walkChan_closed :: bool

text \<open>
  The body of the \<^verbatim>\<open>switch\<close> of \<^verbatim>\<open>receiver.run\<close>, on the local counter \<^verbatim>\<open>i\<close> and the
  receiver. \<open>Waiting\<close> goes on to the next iteration. Closing a closed channel and
  sending on a closed channel panic. A write to a pipe that never returns leaves the
  loop blocked.
\<close>

definition handle :: "Packet \<Rightarrow> uint32 \<times> receiver \<Rightarrow> outcome \<times> (uint32 \<times> receiver)" where
  "handle p st =
     (case st of (i, r) \<Rightarrow>
        (case Type p of
           PACKET_STAT \<Rightarrow>
             (case Stat p of
                None \<Rightarrow>
                  (if walkChan_closed r then (Panicked, (i, r))
                   else (Waiting, (i, r\<lparr>walkChan_closed := True, trace := trace r @ [Go FinTask]\<rparr>)))
              | Some stat \<Rightarrow>
                  (let r1 = (if Mode stat AND (ModeDir OR ModeSymlink OR ModeNamedPipe OR ModeDevice) = 0
                             then r\<lparr>files_r := (files_r r)(Path stat \<mapsto> i)\<rparr> else r);
                       i1 = i + 1
                   in (if walkChan_closed r1 then (Panicked, (i1, r1))
                       else (Waiting, (i1, r1\<lparr>walkChan := walkChan r1 @
                               [\<lparr>path_cp = Path stat, f_cp = StatInfo stat\<rparr>]\<rparr>)))))
         | PACKET_DATA \<Rightarrow>
             (case pipes r (ID p) of
                None \<Rightarrow> (Returned (Some (InvalidFileRequestID (ID p))), (i, r))
              | Some pw \<Rightarrow>
                  (if length (Data p) = 0
                   then (case PipeWriter_Close pw of
                           (Some err, pw1) \<Rightarrow> (Returned (Some err), (i, r\<lparr>pipes := (pipes r)(ID p \<mapsto> pw1)\<rparr>))
                         | (None, pw1) \<Rightarrow> (Waiting, (i, r\<lparr>pipes := (pipes r)(ID p \<mapsto> pw1)\<rparr>)))
                   else (case PipeWriter_Write (Data p) pw of
                           (Some (Some err), pw1) \<Rightarrow> (Returned (Some err), (i, r\<lparr>pipes := (pipes r)(ID p \<mapsto> pw1)\<rparr>))
                         | (Some None, pw1) \<Rightarrow> (Waiting, (i, r\<lparr>pipes := (pipes r)(ID p \<mapsto> pw1)\<rparr>))
                         | (None, pw1) \<Rightarrow> (Blocked, (i, r\<lparr>pipes := (pipes r)(ID p \<mapsto> pw1)\<rparr>)))))
         | PACKET_FIN \<Rightarrow> (Returned None, (i, r))
         | PACKET_REQ \<Rightarrow> (Waiting, (i, r))))"

text \<open>
  The loop of \<^verbatim>\<open>receiver.run\<close>, one iteration for each \<^verbatim>\<open>RecvMsg\<close> result: a failed
  \<^verbatim>\<open>RecvMsg\<close> is logged and the loop goes on.
\<close>

fun receive_loop :: "recv list \<Rightarrow> uint32 \<times> receiver \<Rightarrow> outcome \<times> (uint32 \<times> receiver)" where
  "receive_loop [] st = (Waiting, st)"
| "receive_loop (Inl err # rest) st =
     (case st of (i, r) \<Rightarrow> receive_loop rest (i, r\<lparr>trace := trace r @ [Logged err]\<rparr>))"
| "receive_loop (Inr p # rest) st =
     (case handle p st of
        (Waiting, st1) \<Rightarrow> receive_loop rest st1
      | (Returned res, st1) \<Rightarrow> (Returned res, st1)
      | (Panicked, st1) \<Rightarrow> (Panicked, st1)
      | (Blocked, st1) \<Rightarrow> (Blocked, st1))"


text \<open>\<^verbatim>\<open>receiver.run\<close>: start the diff task, then loop with the counter at 0.\<close>

definition run_r :: "recv list \<Rightarrow> receiver \<Rightarrow> outcome \<times> receiver" where
  "run_r rs r =
     (case receive_loop rs (0, r\<lparr>trace := trace r @ [Go DiffTask]\<rparr>) of
        (res, (i, r1)) \<Rightarrow> (res, r1))"

text \<open>
  \<^verbatim>\<open>Receive\<close>. The first statement declares a new \<^verbatim>\<open>ctx\<close> from
  \<^verbatim>\<open>context.Background()\<close>, which hides the parameter.
\<close>

definition Receive :: "Context \<Rightarrow> Stream \<Rightarrow> string \<Rightarrow> outcome \<times> receiver" where
  "Receive ctx0 conn dest0 =
     (let ctx1 = WithCancel Background
      in run_r (RecvMsg_results conn)
           \<lparr>send_results = SendMsg_results conn, trace = [],
            dest = dest0, ctx_r = ctx1, files_r = Map.empty, pipes = Map.empty,
            walkChan = [], walkChan_closed = False\<rparr>)"

subsection \<open>Reading traces and scripts\<close>

text \<open>The messages of a trace, in the order the transport accepted them.\<close>

fun packets :: "event list \<Rightarrow> Packet list" where
  "packets [] = []"
| "packets (Sent p # t) = p # packets t"
| "packets (Progress c l # t) = packets t"
| "packets (Go k # t) = packets t"
| "packets (Logged e # t) = packets t"

text \<open>
  The entries of a walk that carry a \<^verbatim>\<open>Stat\<close>, in order: those of which a walk that runs
  to its end announces one \<^verbatim>\<open>Stat\<close> message each.
\<close>

fun announced :: "walk_item list \<Rightarrow> Stat list" where
  "announced [] = []"
| "announced ((p, fi, err) # rest) =
     (case Sys fi of None \<Rightarrow> announced rest | Some st \<Rightarrow> st # announced rest)"

text \<open>
  The metadata of the \<^verbatim>\<open>Stat\<close> messages of a script of \<^verbatim>\<open>RecvMsg\<close> results, in order.
\<close>

fun stats_received :: "recv list \<Rightarrow> Stat list" where
  "stats_received [] = []"
| "stats_received (Inl err # rest) = stats_received rest"
| "stats_received (Inr p # rest) =
     (if Type p = PACKET_STAT
      then (case Stat p of None \<Rightarrow> stats_received rest | Some st \<Rightarrow> st # stats_received rest)
      else stats_received rest)"

definition StatPacket :: "Stat option \<Rightarrow> Packet" where
  "StatPacket st = \<lparr>Type = PACKET_STAT, Stat = st, ID = 0, Data = []\<rparr>"

definition DataPacket :: "uint32 \<Rightarrow> byte list \<Rightarrow> Packet" where
  "DataPacket fid dt = \<lparr>Type = PACKET_DATA, Stat = None, ID = fid, Data = dt\<rparr>"

definition ReqPacket :: "uint32 \<Rightarrow> Packet" where
  "ReqPacket fid = \<lparr>Type = PACKET_REQ, Stat = None, ID = fid, Data = []\<rparr>"

definition FinPacket :: Packet where
  "FinPacket = \<lparr>Type = PACKET_FIN, Stat = None, ID = 0, Data = []\<rparr>"

text \<open>
  What a copy reads from a file: the bytes of the successive reads up to the first read
  that returns an error, and that error when it is not \<^verbatim>\<open>io.EOF\<close>.
\<close>

fun chunks_read :: "File \<Rightarrow> byte list list" where
  "chunks_read [] = []"
| "chunks_read ((dt, er) # rest) = dt # (case er of None \<Rightarrow> chunks_read rest | Some e \<Rightarrow> [])"

fun read_failure :: "File \<Rightarrow> error option" where
  "read_failure [] = None"
| "read_failure ((dt, er) # rest) =
     (case er of None \<Rightarrow> read_failure rest | Some e \<Rightarrow> (if e = EOF then None else Some e))"

text \<open>No \<^verbatim>\<open>SendMsg\<close> of the script fails.\<close>

definition sends_succeed :: "'a env_scheme \<Rightarrow> bool" where
  "sends_succeed e = list_all (\<lambda>r. r = None) (send_results e)"

text \<open>The calls of the progress callback in a trace, in order, each with its two arguments.\<close>

fun callbacks :: "event list \<Rightarrow> (int \<times> bool) list" where
  "callbacks [] = []"
| "callbacks (Progress c l # t) = (c, l) # callbacks t"
| "callbacks (Sent p # t) = callbacks t"
| "callbacks (Go k # t) = callbacks t"
| "callbacks (Logged e # t) = callbacks t"








subsection \<open>A small exchange\<close>

text \<open>
  A source tree with the directory \<^verbatim>\<open>d\<close> and the file \<^verbatim>\<open>a.txt\<close>, a size estimator, a
  sender and a receiver as \<^verbatim>\<open>Send\<close> and \<^verbatim>\<open>Receive\<close> make them.
\<close>

definition dir_stat :: Stat where
  "dir_stat = \<lparr>Path = ''d'', Mode = ModeDir OR 493, Uid = 0, Gid = 0, Size = 0, ModTime = 0,
               Linkname = []\<rparr>"

definition file_stat :: Stat where
  "file_stat = \<lparr>Path = ''a.txt'', Mode = 420, Uid = 0, Gid = 0, Size = 4, ModTime = 0,
                Linkname = []\<rparr>"

definition walk_ex :: "walk_item list" where
  "walk_ex = [(''d'', StatInfo dir_stat, None), (''a.txt'', StatInfo file_stat, None)]"

definition size_ex :: "Packet \<Rightarrow> nat" where
  "size_ex p = 2 + length (Data p) + (case Stat p of None \<Rightarrow> 0 | Some st \<Rightarrow> length (Path st))"

definition sender_ex :: "64 sender" where
  "sender_ex = \<lparr>send_results = [], trace = [], ctx = WithCancel Background, root = ''/src'',
                files = Map.empty, progressCb = True, progressCurrent = 0\<rparr>"


definition receiver_ex :: receiver where
  "receiver_ex = \<lparr>send_results = [], trace = [], dest = ''/dst'', ctx_r = WithCancel Background,
                  files_r = Map.empty, pipes = Map.empty, walkChan = [], walkChan_closed = False\<rparr>"

text \<open>
  What the receiver has received when the two entries are announced, with a failed receive
  and a message of another type in between.
\<close>

definition received_ex :: "recv list" where
  "received_ex = [Inr (StatPacket (Some dir_stat)), Inl (TransportError ''connection reset''),
                  Inr (ReqPacket 3), Inr (StatPacket (Some file_stat))]"



text \<open>A transport whose receives fail.\<close>

definition failures_ex :: "recv list" where
  "failures_ex = [Inl (TransportError ''connection reset''), Inl EOF]"

text \<open>
  A file system with the file \<^verbatim>\<open>a.txt\<close>, read in two chunks around an empty read, and a
  file whose second read fails.
\<close>

definition file_ex :: File where
  "file_ex = [([1, 2, 3], None), ([], None), ([4], Some EOF)]"

definition broken_file_ex :: File where
  "broken_file_ex = [([1, 2], None), ([], Some (OSError ''input/output error''))]"

definition fs_ex :: "string \<Rightarrow> string \<Rightarrow> error + File" where
  "fs_ex dir p =
     (if p = ''a.txt'' then Inr file_ex
      else if p = ''broken'' then Inr broken_file_ex
      else Inl (OSError ''no such file or directory''))"

section \<open>Properties\<close>

subsection \<open>Auxiliary facts\<close>

lemma packets_append [simp]: "packets (t @ u) = packets t @ packets u"
  by (induction t rule: packets.induct) simp_all

lemma SendMsg_files [simp]: "files (snd (SendMsg m (s::'w::len sender))) = files s"
  by (simp add: SendMsg_def Stream_SendMsg_def split: list.splits option.splits)

lemma SendMsg_ok:
  "SendMsg m s = (None, s1) \<Longrightarrow> trace s1 = trace s @ [Sent m]"
  by (auto simp: SendMsg_def Stream_SendMsg_def split: list.splits option.splits)

lemma SendMsg_sender_fields [simp]:
  "progressCb (snd (SendMsg m (s::'w::len sender))) = progressCb s"
  "progressCurrent (snd (SendMsg m (s::'w::len sender))) = progressCurrent s"
  "root (snd (SendMsg m (s::'w::len sender))) = root s"
  by (simp_all add: SendMsg_def Stream_SendMsg_def split: list.splits option.splits)

lemma updateProgress_fields [simp]:
  "files (updateProgress n l s) = files s"
  "send_results (updateProgress n l s) = send_results s"
  "progressCb (updateProgress n l s) = progressCb s"
  "root (updateProgress n l s) = root s"
  "packets (trace (updateProgress n l s)) = packets (trace s)"
  by (simp_all add: updateProgress_def Let_def)

lemma run_loop_append:
  "run_loop pre s = (Waiting, s1) \<Longrightarrow> run_loop (pre @ rest) s = run_loop rest s1"
proof (induction pre s rule: run_loop.induct)
  case (1 s)
  then show ?case by simp
next
  case (2 err rs s)
  then show ?case by simp
next
  case (3 p rs s)
  then show ?case
    by (cases "Type p") (auto split: prod.splits option.splits)
qed

lemma Error_InvalidFileId_prefix: "prefix ''invalid file id'' (Error (InvalidFileId n))"
  by (simp add: prefix_def)

lemma send_cb_ok:
  assumes "send_cb sz path fi err (i, s) = (None, (i1, s1))"
  shows "err = None"
    and "Sys fi = None \<Longrightarrow> i1 = i \<and> s1 = s"
    and "Sys fi = Some st \<Longrightarrow> i1 = i + 1 \<and> files s1 = (files s)(i \<mapsto> Path st)
           \<and> packets (trace s1) = packets (trace s) @ [StatPacket (Some st)]"
proof -
  show e: "err = None" using assms by (cases err) (simp_all add: send_cb_def)
  show "Sys fi = None \<Longrightarrow> i1 = i \<and> s1 = s"
    using assms e by (simp add: send_cb_def Wrapf_def)
  assume st: "Sys fi = Some st"
  let ?p = "\<lparr>Type = PACKET_STAT, Stat = Some st, ID = 0, Data = []\<rparr>"
  let ?s2 = "updateProgress (of_nat (sz ?p)) False (s\<lparr>files := (files s)(i \<mapsto> Path st)\<rparr>)"
  obtain r s3 where sm: "SendMsg ?p ?s2 = (r, s3)" by (cases "SendMsg ?p ?s2")
  from assms e st sm have r: "r = None" and i1: "i1 = i + 1" and s1: "s1 = s3"
    by (auto simp: send_cb_def Let_def Wrapf_def split: option.splits)
  have "files s3 = files ?s2" using SendMsg_files [of ?p ?s2] sm by simp
  moreover have "trace s3 = trace ?s2 @ [Sent ?p]" using SendMsg_ok sm r by blast
  ultimately show "i1 = i + 1 \<and> files s1 = (files s)(i \<mapsto> Path st)
           \<and> packets (trace s1) = packets (trace s) @ [StatPacket (Some st)]"
    using i1 s1 by (simp add: StatPacket_def)
qed

lemma Walk_send_cb:
  "Walk walk (send_cb sz) (i, s) = (None, (i1, s1)) \<Longrightarrow>
     i1 = i + of_nat (length (announced walk))
     \<and> packets (trace s1) = packets (trace s) @ map (\<lambda>st. StatPacket (Some st)) (announced walk)
     \<and> (\<forall>k. (\<forall>m < length (announced walk). k \<noteq> i + of_nat m) \<longrightarrow> files s1 k = files s k)"
proof (induction walk arbitrary: i s)
  case Nil
  then show ?case by simp
next
  case (Cons item rest)
  obtain path fi err where item: "item = (path, fi, err)" by (cases item)
  obtain r st2 where cb0: "send_cb sz path fi err (i, s) = (r, st2)"
    by (cases "send_cb sz path fi err (i, s)")
  obtain i2 s2 where st2: "st2 = (i2, s2)" by (cases st2)
  note cb = cb0 [unfolded st2]
  from Cons.prems item cb have r: "r = None"
    by (cases r) simp_all
  from Cons.prems item cb r have w: "Walk rest (send_cb sz) (i2, s2) = (None, (i1, s1))"
    by simp
  note IH = Cons.IH [OF w]
  show ?case
  proof (cases "Sys fi")
    case None
    from send_cb_ok(2) [OF cb [unfolded r] None] have "i2 = i" "s2 = s" by simp_all
    with IH item None show ?thesis by simp
  next
    case (Some st)
    from send_cb_ok(3) [OF cb [unfolded r] Some]
    have i2: "i2 = i + 1" and f2: "files s2 = (files s)(i \<mapsto> Path st)"
      and t2: "packets (trace s2) = packets (trace s) @ [StatPacket (Some st)]" by simp_all
    have an: "announced (item # rest) = st # announced rest"
      using item Some by simp
    have keep: "\<forall>k. (\<forall>m < Suc (length (announced rest)). k \<noteq> i + of_nat m) \<longrightarrow> files s1 k = files s k"
    proof (intro allI impI)
      fix k assume k: "\<forall>m < Suc (length (announced rest)). k \<noteq> i + of_nat m"
      from k have "k \<noteq> i + of_nat 0" by blast
      then have k0: "k \<noteq> i" by simp
      have "\<forall>m < length (announced rest). k \<noteq> i2 + of_nat m"
      proof (intro allI impI)
        fix m assume "m < length (announced rest)"
        then have "Suc m < Suc (length (announced rest))" by simp
        with k have "k \<noteq> i + of_nat (Suc m)" by blast
        then show "k \<noteq> i2 + of_nat m" by (simp add: i2 add.assoc)
      qed
      then have "files s1 k = files s2 k" using IH by blast
      then show "files s1 k = files s k" using f2 k0 by simp
    qed
    have "i1 = i + of_nat (length (announced (item # rest)))"
      using IH i2 an by (simp add: add.assoc)
    moreover have "packets (trace s1) = packets (trace s) @ map (\<lambda>st. StatPacket (Some st)) (announced (item # rest))"
      using IH t2 an by simp
    ultimately show ?thesis using keep an by simp
  qed
qed


lemma Walk_send_cb_files:
  "Walk walk (send_cb sz) (i, s) = (None, (i1, s1)) \<Longrightarrow> length (announced walk) \<le> 2 ^ 32 \<Longrightarrow>
   n < length (announced walk) \<Longrightarrow> files s1 (i + of_nat n) = Some (Path (announced walk ! n))"
proof (induction walk arbitrary: i s n)
  case Nil
  then show ?case by simp
next
  case (Cons item rest)
  obtain path fi err where item: "item = (path, fi, err)" by (cases item)
  obtain r st2 where cb0: "send_cb sz path fi err (i, s) = (r, st2)"
    by (cases "send_cb sz path fi err (i, s)")
  obtain i2 s2 where st2: "st2 = (i2, s2)" by (cases st2)
  note cb = cb0 [unfolded st2]
  from Cons.prems(1) item cb have r: "r = None"
    by (cases r) simp_all
  from Cons.prems(1) item cb r have w: "Walk rest (send_cb sz) (i2, s2) = (None, (i1, s1))"
    by simp
  show ?case
  proof (cases "Sys fi")
    case None
    from send_cb_ok(2) [OF cb [unfolded r] None] have "i2 = i" "s2 = s" by simp_all
    moreover have "announced (item # rest) = announced rest" using item None by simp
    ultimately show ?thesis using Cons.IH [OF w, of n] Cons.prems(2,3) by simp
  next
    case (Some st)
    from send_cb_ok(3) [OF cb [unfolded r] Some]
    have i2: "i2 = i + 1" and f2: "files s2 = (files s)(i \<mapsto> Path st)" by simp_all
    have an: "announced (item # rest) = st # announced rest"
      using item Some by simp
    from Cons.prems(2) an have len: "Suc (length (announced rest)) \<le> 2 ^ 32" by simp
    show ?thesis
    proof (cases n)
      case 0
      have "\<forall>m < length (announced rest). i \<noteq> i2 + of_nat m"
      proof (intro allI impI)
        fix m assume m: "m < length (announced rest)"
        then have "Suc m < 2 ^ LENGTH(32)" using len by simp
        then have "(of_nat (Suc m) :: uint32) \<noteq> 0" by (intro of_nat_neq_0) simp_all
        then have "i + of_nat (Suc m) \<noteq> i" by simp
        then show "i \<noteq> i2 + of_nat m" by (simp add: i2 add.assoc)
      qed
      with Walk_send_cb [OF w] have "files s1 i = files s2 i" by blast
      then show ?thesis using f2 0 an by simp
    next
      case (Suc n')
      with Cons.prems(3) an have n': "n' < length (announced rest)" by simp
      from len have "length (announced rest) \<le> 2 ^ 32" by simp
      from Cons.IH [OF w this n'] show ?thesis
        using Suc an i2 by (simp add: add.assoc)
    qed
  qed
qed

lemma send_None:
  assumes "send sz walk s = (None, s1)"
  shows "\<exists>i s0. Walk walk (send_cb sz) (0, s) = (None, (i, s0)) \<and> files s1 = files s0
           \<and> packets (trace s1) = packets (trace s0) @ [StatPacket None]"
proof -
  obtain r st where w0: "Walk walk (send_cb sz) (0, s) = (r, st)"
    by (cases "Walk walk (send_cb sz) (0, s)")
  obtain i s0 where st: "st = (i, s0)" by (cases st)
  from assms w0 st have r: "r = None" by (cases r) (simp_all add: send_def)
  let ?p = "\<lparr>Type = PACKET_STAT, Stat = None, ID = 0, Data = []\<rparr>"
  obtain e s2 where sm: "SendMsg ?p s0 = (e, s2)" by (cases "SendMsg ?p s0")
  from assms w0 st r sm have e: "e = None" and s1: "s1 = s2"
    by (cases e; simp add: send_def Wrapf_def)+
  from s1 sm have "files s1 = files s0" using SendMsg_files [of ?p s0] by simp
  moreover from SendMsg_ok [OF sm [unfolded e]] s1
  have "packets (trace s1) = packets (trace s0) @ [StatPacket None]" by (simp add: StatPacket_def)
  ultimately show ?thesis using w0 st r by simp
qed

lemma handle_stat:
  "\<not> walkChan_closed r \<Longrightarrow>
   \<exists>r1. handle (StatPacket (Some st)) (i, r) = (Waiting, (i + 1, r1)) \<and> \<not> walkChan_closed r1
        \<and> pipes r1 = pipes r \<and> packets (trace r1) = packets (trace r)"
  by (simp add: handle_def StatPacket_def Let_def)

lemma receive_stats:
  "\<not> walkChan_closed r \<Longrightarrow>
   \<exists>r1. receive_loop (map (\<lambda>st. Inr (StatPacket (Some st))) sts) (i, r)
          = (Waiting, (i + of_nat (length sts), r1)) \<and> \<not> walkChan_closed r1"
proof (induction sts arbitrary: i r)
  case Nil
  then show ?case by simp
next
  case (Cons st sts)
  from handle_stat [OF Cons.prems, of st i] obtain r1
    where h: "handle (StatPacket (Some st)) (i, r) = (Waiting, (i + 1, r1))"
      and c: "\<not> walkChan_closed r1" by blast
  from Cons.IH [OF c, of "i + 1"] obtain r2
    where "receive_loop (map (\<lambda>st. Inr (StatPacket (Some st))) sts) (i + 1, r1)
            = (Waiting, (i + 1 + of_nat (length sts), r2))" and "\<not> walkChan_closed r2"
    by blast
  with h show ?case by (simp add: add.assoc)
qed

lemma handle_counter:
  "handle p (i, r) = (Waiting, (j, r1)) \<Longrightarrow> j = i + of_nat (length (stats_received [Inr p]))"
  by (cases "Type p")
     (auto simp: handle_def Let_def PipeWriter_Close_def PipeWriter_Write_def
           split: option.splits if_splits)

lemma receive_loop_counter:
  "receive_loop rs (i, r) = (Waiting, (j, r1)) \<Longrightarrow> j = i + of_nat (length (stats_received rs))"
proof (induction rs arbitrary: i r)
  case Nil
  then show ?case by simp
next
  case (Cons x rs)
  show ?case
  proof (cases x)
    case (Inl err)
    with Cons.prems have "receive_loop rs (i, r\<lparr>trace := trace r @ [Logged err]\<rparr>) = (Waiting, (j, r1))"
      by simp
    from Cons.IH [OF this] Inl show ?thesis by simp
  next
    case (Inr p)
    obtain out i2 r2 where h: "handle p (i, r) = (out, (i2, r2))" by (metis prod.exhaust)
    with Cons.prems Inr have out: "out = Waiting" by (cases out) simp_all
    with Cons.prems Inr h have "receive_loop rs (i2, r2) = (Waiting, (j, r1))" by simp
    from Cons.IH [OF this] handle_counter [OF h [unfolded out]] Inr show ?thesis
      by (simp add: add.assoc split: option.splits)
  qed
qed

lemma receive_loop_append:
  "receive_loop pre st = (Waiting, st1) \<Longrightarrow> receive_loop (pre @ rest) st = receive_loop rest st1"
proof (induction pre st rule: receive_loop.induct)
  case (1 st)
  then show ?case by simp
next
  case (2 err rs st)
  then show ?case by (cases st) simp
next
  case (3 p rs st)
  obtain out st2 where h: "handle p st = (out, st2)" by (cases "handle p st")
  with "3.prems" have out: "out = Waiting" by (cases out) simp_all
  with h "3.prems" have "receive_loop rs st2 = (Waiting, st1)" by simp
  from "3.IH" [OF h [unfolded out, symmetric] refl this] h out show ?case by simp
qed

lemma run_r_Waiting:
  "run_r pre r0 = (Waiting, r) \<Longrightarrow>
   \<exists>i. receive_loop pre (0, r0\<lparr>trace := trace r0 @ [Go DiffTask]\<rparr>) = (Waiting, (i, r))"
  by (auto simp: run_r_def split: prod.splits)


lemma run_loop_filter: "run_loop (filter (\<lambda>x. \<not> isl x) rs) s = run_loop rs s"
proof (induction rs s rule: run_loop.induct)
  case (1 s)
  then show ?case by simp
next
  case (2 err rs s)
  then show ?case by simp
next
  case (3 p rs s)
  then show ?case
    by (cases "Type p") (auto split: prod.splits option.splits)
qed

lemma run_loop_failures: "list_all isl rs \<Longrightarrow> run_loop rs s = (Waiting, s)"
  by (induction rs s rule: run_loop.induct) simp_all

text \<open>The trace of the receiver has no part in what its loop decides.\<close>

lemma handle_trace:
  "handle p (i, r\<lparr>trace := t\<rparr>) =
     (fst (handle p (i, r)), (fst (snd (handle p (i, r))),
       (snd (snd (handle p (i, r))))\<lparr>trace := trace (snd (snd (handle p (i, r\<lparr>trace := t\<rparr>))))\<rparr>))"
proof (cases "Type p")
  case PACKET_STAT
  show ?thesis
  proof (cases "Stat p")
    case None
    with PACKET_STAT show ?thesis by (simp add: handle_def)
  next
    case (Some st)
    with PACKET_STAT show ?thesis by (simp add: handle_def Let_def)
  qed
next
  case PACKET_REQ
  then show ?thesis by (simp add: handle_def)
next
  case PACKET_DATA
  show ?thesis
  proof (cases "pipes r (ID p)")
    case None
    with PACKET_DATA show ?thesis by (simp add: handle_def)
  next
    case (Some pw)
    with PACKET_DATA show ?thesis
      by (simp add: handle_def PipeWriter_Close_def PipeWriter_Write_def)
  qed
next
  case PACKET_FIN
  then show ?thesis by (simp add: handle_def)
qed

lemma receive_loop_trace:
  "fst (receive_loop rs (i, r\<lparr>trace := t\<rparr>)) = fst (receive_loop rs (i, r))"
proof (induction rs arbitrary: i r t)
  case Nil
  then show ?case by simp
next
  case (Cons x rs)
  show ?case
  proof (cases x)
    case (Inl err)
    have "fst (receive_loop rs (i, r\<lparr>trace := t @ [Logged err]\<rparr>)) = fst (receive_loop rs (i, r))"
      by (rule Cons.IH)
    moreover have "fst (receive_loop rs (i, r\<lparr>trace := trace r @ [Logged err]\<rparr>)) = fst (receive_loop rs (i, r))"
      by (rule Cons.IH)
    ultimately show ?thesis using Inl by simp
  next
    case (Inr p)
    obtain out j r1 where h: "handle p (i, r) = (out, (j, r1))"
      by (metis prod.exhaust)
    from handle_trace [where p = p and i = i and r = r and t = t] h obtain t1
      where h': "handle p (i, r\<lparr>trace := t\<rparr>) = (out, (j, r1\<lparr>trace := t1\<rparr>))" by simp
    have "fst (receive_loop rs (j, r1\<lparr>trace := t1\<rparr>)) = fst (receive_loop rs (j, r1))"
      by (rule Cons.IH)
    then show ?thesis
      using Inr h h' by (cases out) simp_all
  qed
qed

lemma receive_loop_filter:
  "fst (receive_loop (filter (\<lambda>x. \<not> isl x) rs) (i, r)) = fst (receive_loop rs (i, r))"
proof (induction rs arbitrary: i r)
  case Nil
  then show ?case by simp
next
  case (Cons x rs)
  show ?case
  proof (cases x)
    case (Inl err)
    have "fst (receive_loop (filter (\<lambda>x. \<not> isl x) rs) (i, r)) = fst (receive_loop rs (i, r))"
      by (rule Cons.IH)
    then show ?thesis using Inl by (simp add: receive_loop_trace)
  next
    case (Inr p)
    obtain out j r1 where h: "handle p (i, r) = (out, (j, r1))"
      by (metis prod.exhaust)
    have "fst (receive_loop (filter (\<lambda>x. \<not> isl x) rs) (j, r1)) = fst (receive_loop rs (j, r1))"
      by (rule Cons.IH)
    then show ?thesis using Inr h by (cases out) simp_all
  qed
qed

lemma receive_loop_failures:
  "list_all isl rs \<Longrightarrow>
   receive_loop rs (i, r) = (Waiting, (i, r\<lparr>trace := trace r @ map (\<lambda>x. Logged (projl x)) rs\<rparr>))"
proof (induction rs arbitrary: r)
  case Nil
  then show ?case by simp
next
  case (Cons x rs)
  then obtain err where x: "x = Inl err" by (cases x) simp_all
  from Cons.prems have "list_all isl rs" by simp
  then have "receive_loop rs (i, r\<lparr>trace := trace r @ [Logged err]\<rparr>) =
      (Waiting, (i, r\<lparr>trace := trace r @ [Logged err]\<rparr>
         \<lparr>trace := trace (r\<lparr>trace := trace r @ [Logged err]\<rparr>) @ map (\<lambda>x. Logged (projl x)) rs\<rparr>))"
    by (rule Cons.IH)
  with x show ?case by simp
qed

lemma run_append:
  assumes "run pre s = (Waiting, s1)"
  shows "run (pre @ rest) s =
     (case run_loop rest s1 of
        (Returned res, s2) \<Rightarrow> (Returned res, updateProgress 0 True s2)
      | (Waiting, s2) \<Rightarrow> (Waiting, s2)
      | (Panicked, s2) \<Rightarrow> (Panicked, s2)
      | (Blocked, s2) \<Rightarrow> (Blocked, s2))"
proof -
  from assms have "run_loop pre (s\<lparr>trace := trace s @ [Go SendTask]\<rparr>) = (Waiting, s1)"
    by (auto simp: run_def split: prod.splits outcome.splits)
  from run_loop_append [OF this, of rest] show ?thesis by (simp add: run_def)
qed

lemma run_loop_Returned_None:
  "fst (run_loop rs s) = Returned None \<Longrightarrow>
   \<exists>pre q rest s1. rs = pre @ Inr q # rest \<and> Type q = PACKET_FIN \<and> run_loop pre s = (Waiting, s1)"
proof (induction rs arbitrary: s)
  case Nil
  then show ?case by simp
next
  case (Cons x rs)
  have step: "\<exists>pre q rest s1. x # rs = pre @ Inr q # rest \<and> Type q = PACKET_FIN
                \<and> run_loop pre s = (Waiting, s1)"
    if nxt: "fst (run_loop rs s2) = Returned None" and one: "run_loop [x] s = (Waiting, s2)" for s2
  proof -
    from Cons.IH [OF nxt] obtain pre q rest s1
      where rs: "rs = pre @ Inr q # rest" and q: "Type q = PACKET_FIN"
        and pre: "run_loop pre s2 = (Waiting, s1)" by blast
    from run_loop_append [OF one, of pre] pre have "run_loop (x # pre) s = (Waiting, s1)" by simp
    with rs q have "x # rs = (x # pre) @ Inr q # rest \<and> Type q = PACKET_FIN
      \<and> run_loop (x # pre) s = (Waiting, s1)" by simp
    then show ?thesis by blast
  qed
  show ?case
  proof (cases x)
    case (Inl err)
    with Cons.prems have "fst (run_loop rs s) = Returned None" by simp
    moreover from Inl have "run_loop [x] s = (Waiting, s)" by simp
    ultimately show ?thesis by (rule step)
  next
    case (Inr p)
    show ?thesis
    proof (cases "Type p")
      case PACKET_STAT
      with Cons.prems Inr have "fst (run_loop rs s) = Returned None" by simp
      moreover from Inr PACKET_STAT have "run_loop [x] s = (Waiting, s)" by simp
      ultimately show ?thesis by (rule step)
    next
      case PACKET_REQ
      obtain e s2 where q: "queue (ID p) s = (e, s2)" by (cases "queue (ID p) s")
      with Cons.prems Inr PACKET_REQ have e: "e = None" by (cases e) simp_all
      with Cons.prems Inr PACKET_REQ q have "fst (run_loop rs s2) = Returned None" by simp
      moreover from Inr PACKET_REQ q e have "run_loop [x] s = (Waiting, s2)" by simp
      ultimately show ?thesis by (rule step)
    next
      case PACKET_DATA
      with Cons.prems Inr have "fst (run_loop rs s) = Returned None" by simp
      moreover from Inr PACKET_DATA have "run_loop [x] s = (Waiting, s)" by simp
      ultimately show ?thesis by (rule step)
    next
      case PACKET_FIN
      with Inr have "x # rs = [] @ Inr p # rs \<and> Type p = PACKET_FIN \<and> run_loop [] s = (Waiting, s)"
        by simp
      then show ?thesis by blast
    qed
  qed
qed

lemma handle_Returned_None:
  "fst (handle p st) = Returned None \<Longrightarrow> Type p = PACKET_FIN"
  by (cases st; cases "Type p")
     (auto simp: handle_def Let_def PipeWriter_Close_def PipeWriter_Write_def
           split: option.splits if_splits)

lemma receive_loop_Returned_None:
  "fst (receive_loop rs st) = Returned None \<Longrightarrow>
   \<exists>pre q rest st1. rs = pre @ Inr q # rest \<and> Type q = PACKET_FIN \<and> receive_loop pre st = (Waiting, st1)"
proof (induction rs st rule: receive_loop.induct)
  case (1 st)
  then show ?case by simp
next
  case (2 err rs st)
  obtain i r where st: "st = (i, r)" by (cases st)
  from "2.prems" st have "fst (receive_loop rs (i, r\<lparr>trace := trace r @ [Logged err]\<rparr>)) = Returned None"
    by simp
  from "2.IH" [OF st [symmetric] this] obtain pre q rest st1
    where "rs = pre @ Inr q # rest" "Type q = PACKET_FIN"
      "receive_loop pre (i, r\<lparr>trace := trace r @ [Logged err]\<rparr>) = (Waiting, st1)"
    by auto
  with st have "Inl err # rs = (Inl err # pre) @ Inr q # rest \<and> Type q = PACKET_FIN
      \<and> receive_loop (Inl err # pre) st = (Waiting, st1)" by simp
  then show ?case by blast
next
  case (3 p rs st)
  obtain out st2 where h: "handle p st = (out, st2)" by (cases "handle p st")
  show ?case
  proof (cases out)
    case (Returned res)
    with "3.prems" h have "fst (handle p st) = Returned None" by simp
    then have "Type p = PACKET_FIN" by (rule handle_Returned_None)
    then have "Inr p # rs = [] @ Inr p # rs \<and> Type p = PACKET_FIN \<and> receive_loop [] st = (Waiting, st)"
      by simp
    then show ?thesis by blast
  next
    case Waiting
    with "3.prems" h have "fst (receive_loop rs st2) = Returned None" by simp
    from "3.IH" [OF h [unfolded Waiting, symmetric] refl this] obtain pre q rest st1
      where "rs = pre @ Inr q # rest" "Type q = PACKET_FIN" "receive_loop pre st2 = (Waiting, st1)"
      by auto
    with h Waiting have "Inr p # rs = (Inr p # pre) @ Inr q # rest \<and> Type q = PACKET_FIN
      \<and> receive_loop (Inr p # pre) st = (Waiting, st1)" by simp
    then show ?thesis by blast
  next
    case Panicked
    with "3.prems" h show ?thesis by simp
  next
    case Blocked
    with "3.prems" h show ?thesis by simp
  qed
qed

lemma SendMsg_packets:
  "packets (trace (snd (SendMsg m s))) = packets (trace s) @ (if fst (SendMsg m s) = None then [m] else [])"
  by (simp add: SendMsg_def Stream_SendMsg_def split: list.splits option.splits)

lemma handle_ctx_r: "ctx_r (snd (snd (handle p (i, r)))) = ctx_r r"
  by (cases "Type p")
     (simp_all add: handle_def Let_def PipeWriter_Close_def PipeWriter_Write_def split: option.splits)

lemma receive_loop_ctx_r: "ctx_r (snd (snd (receive_loop rs (i, r)))) = ctx_r r"
proof (induction rs arbitrary: i r)
  case Nil
  then show ?case by simp
next
  case (Cons x rs)
  show ?case
  proof (cases x)
    case (Inl err)
    have "ctx_r (snd (snd (receive_loop rs (i, r\<lparr>trace := trace r @ [Logged err]\<rparr>))))
          = ctx_r (r\<lparr>trace := trace r @ [Logged err]\<rparr>)" by (rule Cons.IH)
    with Inl show ?thesis by simp
  next
    case (Inr p)
    obtain out j r1 where h: "handle p (i, r) = (out, (j, r1))" by (metis prod.exhaust)
    have c: "ctx_r r1 = ctx_r r" using handle_ctx_r [of p i r] h by simp
    have "ctx_r (snd (snd (receive_loop rs (j, r1)))) = ctx_r r1" by (rule Cons.IH)
    with Inr h c show ?thesis by (cases out) simp_all
  qed
qed

lemma SendMsg_succeeds:
  assumes "sends_succeed s"
  shows "fst (SendMsg m s) = None" and "sends_succeed (snd (SendMsg m s))"
    and "trace (snd (SendMsg m s)) = trace s @ [Sent m]"
  using assms
  by (auto simp: sends_succeed_def SendMsg_def Stream_SendMsg_def split: list.splits option.splits)

lemma updateProgress_sends_succeed [simp]:
  "sends_succeed (updateProgress n l s) = sends_succeed s"
  by (simp add: sends_succeed_def)

lemma fileSender_Write_succeeds:
  assumes "sends_succeed s" and "dt \<noteq> []"
  shows "fst (fileSender_Write sz fid dt s) = (length dt, None)"
    and "sends_succeed (snd (fileSender_Write sz fid dt s))"
    and "packets (trace (snd (fileSender_Write sz fid dt s))) = packets (trace s) @ [DataPacket fid dt]"
    and "root (snd (fileSender_Write sz fid dt s)) = root s"
proof -
  let ?p = "\<lparr>Type = PACKET_DATA, Stat = None, ID = fid, Data = dt\<rparr>"
  obtain r s1 where sm: "SendMsg ?p s = (r, s1)" by (cases "SendMsg ?p s")
  from SendMsg_succeeds [OF assms(1), of ?p] sm
  have r: "r = None" and s1: "sends_succeed s1" and t: "trace s1 = trace s @ [Sent ?p]" by simp_all
  have w: "fileSender_Write sz fid dt s = ((length dt, None), updateProgress (of_nat (sz ?p)) False s1)"
    using assms(2) sm r by (simp add: fileSender_Write_def)
  show "fst (fileSender_Write sz fid dt s) = (length dt, None)" by (simp add: w)
  show "sends_succeed (snd (fileSender_Write sz fid dt s))" by (simp add: w s1)
  show "packets (trace (snd (fileSender_Write sz fid dt s))) = packets (trace s) @ [DataPacket fid dt]"
    by (simp add: w t DataPacket_def)
  have "root s1 = root s" using SendMsg_sender_fields(3) [of ?p s] sm by simp
  then show "root (snd (fileSender_Write sz fid dt s)) = root s" by (simp add: w)
qed

lemma CopyBuffer_succeeds:
  "sends_succeed s \<Longrightarrow> read_failure fl = None \<Longrightarrow>
   fst (CopyBuffer (fileSender_Write sz fid) fl s) = None
   \<and> sends_succeed (snd (CopyBuffer (fileSender_Write sz fid) fl s))
   \<and> packets (trace (snd (CopyBuffer (fileSender_Write sz fid) fl s)))
       = packets (trace s) @ map (DataPacket fid) (filter (\<lambda>dt. dt \<noteq> []) (chunks_read fl))"
proof (induction fl arbitrary: s)
  case Nil
  then show ?case by simp
next
  case (Cons rd rest)
  obtain dt er where rd: "rd = (dt, er)" by (cases rd)
  show ?case
  proof (cases "dt = []")
    case True
    show ?thesis
    proof (cases er)
      case None
      with Cons.prems rd have "read_failure rest = None" by simp
      from Cons.IH [OF Cons.prems(1) this] rd True None show ?thesis by simp
    next
      case (Some e)
      with Cons.prems rd have "e = EOF" by (simp split: if_splits)
      with rd True Some Cons.prems(1) show ?thesis by simp
    qed
  next
    case False
    note W = fileSender_Write_succeeds [OF Cons.prems(1) False, of sz fid]
    obtain res s1 where w0: "fileSender_Write sz fid dt s = (res, s1)"
      by (cases "fileSender_Write sz fid dt s")
    with W have w: "fileSender_Write sz fid dt s = ((length dt, None), s1)"
      and s1: "sends_succeed s1"
      and t1: "packets (trace s1) = packets (trace s) @ [DataPacket fid dt]" by simp_all
    show ?thesis
    proof (cases er)
      case None
      with Cons.prems rd have "read_failure rest = None" by simp
      from Cons.IH [OF s1 this] rd False None w t1 show ?thesis by simp
    next
      case (Some e)
      with Cons.prems rd have "e = EOF" by (simp split: if_splits)
      with rd False Some w s1 t1 show ?thesis by simp
    qed
  qed
qed

lemma callbacks_append [simp]: "callbacks (t @ u) = callbacks t @ callbacks u"
  by (induction t rule: callbacks.induct) simp_all























text \<open>A call of \<^verbatim>\<open>updateProgress\<close> that no other call overlaps is its two statements in a row.\<close>

lemma updateProgress_statements:
  "progressCb s \<Longrightarrow>
   updateProgress n l s
     = updateProgress_call (progressCurrent (updateProgress_add n s)) l (updateProgress_add n s)"
  by (simp add: updateProgress_def updateProgress_add_def updateProgress_call_def Let_def)


subsection \<open>The claims\<close>

text \<open>
  C1. When the loop of the sender, still running after the results \<open>pre\<close>, receives a
  \<^verbatim>\<open>Request\<close> for an id that is not in the transfer table at that moment, \<^verbatim>\<open>sender.run\<close>,
  and with it \<^verbatim>\<open>Send\<close>, returns the error of \<^verbatim>\<open>queue\<close>, whose text starts with
  \<^verbatim>\<open>invalid file id\<close>; the rest of the script is not read.
\<close>

theorem invalid_file_id:
  assumes "run pre s = (Waiting, s1)" and "Type p = PACKET_REQ" and "files s1 (ID p) = None"
  shows "run (pre @ Inr p # rest) s = (Returned (Some (InvalidFileId (ID p))), updateProgress 0 True s1)
         \<and> prefix ''invalid file id'' (Error (InvalidFileId (ID p)))"
proof -
  let ?s0 = "s\<lparr>trace := trace s @ [Go SendTask]\<rparr>"
  from assms(1) have pre: "run_loop pre ?s0 = (Waiting, s1)"
    by (auto simp: run_def split: prod.splits outcome.splits)
  have "run_loop (pre @ Inr p # rest) ?s0 = run_loop (Inr p # rest) s1"
    by (rule run_loop_append [OF pre])
  also have "\<dots> = (Returned (Some (InvalidFileId (ID p))), s1)"
    using assms(2,3) by (simp add: queue_def)
  finally show ?thesis
    by (simp add: run_def Error_InvalidFileId_prefix)
qed

text \<open>
  On the small exchange: the walk has announced two entries, the first request for
  the id 0 starts a content task, the second one fails; and so does a request for the
  id 7, which the walk never assigned.
\<close>

theorem invalid_file_id_witness:
  "run [Inr (ReqPacket 0)] (snd (send size_ex walk_ex sender_ex))
     = (Waiting, snd (run [Inr (ReqPacket 0)] (snd (send size_ex walk_ex sender_ex))))
   \<and> Type (ReqPacket 0) = PACKET_REQ
   \<and> files (snd (run [Inr (ReqPacket 0)] (snd (send size_ex walk_ex sender_ex)))) (ID (ReqPacket 0)) = None
   \<and> fst (run ([Inr (ReqPacket 0)] @ Inr (ReqPacket 0) # [Inr FinPacket]) (snd (send size_ex walk_ex sender_ex)))
       = Returned (Some (InvalidFileId 0))
   \<and> Error (InvalidFileId 0) = ''invalid file id 0''
   \<and> run [] (snd (send size_ex walk_ex sender_ex))
       = (Waiting, snd (run [] (snd (send size_ex walk_ex sender_ex))))
   \<and> files (snd (run [] (snd (send size_ex walk_ex sender_ex)))) (ID (ReqPacket 7)) = None
   \<and> fst (run ([] @ Inr (ReqPacket 7) # [Inr FinPacket]) (snd (send size_ex walk_ex sender_ex)))
       = Returned (Some (InvalidFileId 7))
   \<and> Error (InvalidFileId 7) = ''invalid file id 7''"
proof -
  let ?s = "snd (send size_ex walk_ex sender_ex)"
  have h1: "run [Inr (ReqPacket 0)] ?s = (Waiting, snd (run [Inr (ReqPacket 0)] ?s))"
    by (simp add: run_def queue_def updateProgress_def SendMsg_def Stream_SendMsg_def send_def send_cb_def
        Wrapf_def Let_def size_ex_def sender_ex_def walk_ex_def dir_stat_def file_stat_def
        ReqPacket_def FinPacket_def StatPacket_def)
  have h2: "Type (ReqPacket n) = PACKET_REQ" for n by (simp add: ReqPacket_def)
  have h3: "files (snd (run [Inr (ReqPacket 0)] ?s)) (ID (ReqPacket 0)) = None"
    by (simp add: run_def queue_def updateProgress_def SendMsg_def Stream_SendMsg_def send_def send_cb_def
        Wrapf_def Let_def size_ex_def sender_ex_def walk_ex_def dir_stat_def file_stat_def
        ReqPacket_def FinPacket_def StatPacket_def)
  have "decimal 0 = ''0''" by (simp add: decimal.simps digit_char_def)
  then have h4: "Error (InvalidFileId 0) = ''invalid file id 0''" by simp
  have g1: "run [] ?s = (Waiting, snd (run [] ?s))" by (simp add: run_def queue_def updateProgress_def SendMsg_def Stream_SendMsg_def send_def send_cb_def
        Wrapf_def Let_def size_ex_def sender_ex_def walk_ex_def dir_stat_def file_stat_def
        ReqPacket_def FinPacket_def StatPacket_def)
  have g3: "files (snd (run [] ?s)) (ID (ReqPacket 7)) = None" by (simp add: run_def queue_def updateProgress_def SendMsg_def Stream_SendMsg_def send_def send_cb_def
        Wrapf_def Let_def size_ex_def sender_ex_def walk_ex_def dir_stat_def file_stat_def
        ReqPacket_def FinPacket_def StatPacket_def)
  have "decimal 7 = ''7''" by (simp add: decimal.simps digit_char_def)
  then have g4: "Error (InvalidFileId 7) = ''invalid file id 7''" by simp
  from invalid_file_id [OF h1 h2 h3, of "[Inr FinPacket]"]
  have a: "fst (run ([Inr (ReqPacket 0)] @ Inr (ReqPacket 0) # [Inr FinPacket]) ?s)
       = Returned (Some (InvalidFileId 0))" by (simp add: ReqPacket_def)
  from invalid_file_id [OF g1 h2 g3, of "[Inr FinPacket]"]
  have b: "fst (run ([] @ Inr (ReqPacket 7) # [Inr FinPacket]) ?s)
       = Returned (Some (InvalidFileId 7))" by (simp add: ReqPacket_def)
  from h1 h2 h3 h4 g1 g3 g4 a b show ?thesis by blast
qed

text \<open>
  C2, as the code has it (the claim says that only regular files are recorded). A walk
  that runs to its end gives the entries that carry a \<^verbatim>\<open>Stat\<close> the ids 0, 1, 2, ... in
  order, and the transfer table then maps the id of every such entry to its path,
  whatever the type of the entry. An id is a \<^verbatim>\<open>uint32\<close>: the table has 2^32 keys, and the
  statement is for walks of at most that many entries.
\<close>

theorem send_records_every_entry:
  assumes "send sz walk s = (None, s1)" and "length (announced walk) \<le> 2 ^ 32"
    and "n < length (announced walk)"
  shows "files s1 (of_nat n) = Some (Path (announced walk ! n))"
proof -
  from send_None [OF assms(1)] obtain i s0
    where w: "Walk walk (send_cb sz) (0, s) = (None, (i, s0))" and f: "files s1 = files s0"
    by blast
  from Walk_send_cb_files [OF w assms(2,3)] f show ?thesis by simp
qed

text \<open>
  On the small exchange the id 0 is that of the directory \<^verbatim>\<open>d\<close>.
\<close>

theorem send_records_every_entry_witness:
  "send size_ex walk_ex sender_ex = (None, snd (send size_ex walk_ex sender_ex))
   \<and> length (announced walk_ex) \<le> 2 ^ 32 \<and> 0 < length (announced walk_ex)
   \<and> Mode (announced walk_ex ! 0) AND ModeDir \<noteq> 0
   \<and> files (snd (send size_ex walk_ex sender_ex)) (of_nat 0) = Some ''d''"
proof -
  have h1: "send size_ex walk_ex sender_ex = (None, snd (send size_ex walk_ex sender_ex))"
    by (simp add: run_def queue_def updateProgress_def SendMsg_def Stream_SendMsg_def send_def send_cb_def
        Wrapf_def Let_def size_ex_def sender_ex_def walk_ex_def dir_stat_def file_stat_def
        ReqPacket_def FinPacket_def StatPacket_def)
  have h2: "length (announced walk_ex) \<le> 2 ^ 32" by (simp add: walk_ex_def)
  have h3: "0 < length (announced walk_ex)" by (simp add: walk_ex_def)
  have h4: "Mode (announced walk_ex ! 0) AND ModeDir \<noteq> 0"
    by (simp add: walk_ex_def dir_stat_def ModeDir_def)
  from send_records_every_entry [OF h1 h2 h3] h1 h2 h3 h4 show ?thesis
    by (simp add: walk_ex_def dir_stat_def)
qed

text \<open>
  The claim says that the ids of directories are never inserted into the transfer
  table. The walk of a tree that holds the directory \<^verbatim>\<open>d\<close> leaves the id 0 of that
  directory in the table: \<^verbatim>\<open>send\<close> stores the path of every entry, with no look at its
  mode.
\<close>

theorem directory_id_in_table_counterexample:
  "Mode dir_stat AND ModeDir \<noteq> 0
   \<and> files (snd (send size_ex [(''d'', StatInfo dir_stat, None)] sender_ex)) 0 = Some ''d''"
  by (simp add: run_def queue_def updateProgress_def SendMsg_def Stream_SendMsg_def send_def send_cb_def
        Wrapf_def Let_def size_ex_def sender_ex_def walk_ex_def dir_stat_def file_stat_def
        ReqPacket_def FinPacket_def StatPacket_def ModeDir_def)

text \<open>
  C3, as the code has it (the claim says it of every content task). When no \<^verbatim>\<open>SendMsg\<close>
  fails: a content task whose file does not open sends the \<^verbatim>\<open>Data\<close> message without
  bytes and nothing else; a content task whose file opens and whose reads do not fail
  sends one \<^verbatim>\<open>Data\<close> message for each read that returned bytes, none of them empty, in
  the order of the reads, and then the one \<^verbatim>\<open>Data\<close> message without bytes. Both return
  \<^verbatim>\<open>nil\<close>.
\<close>

theorem sendFile_messages:
  assumes "sends_succeed s"
  shows "(\<forall>e. fs (root s) p = Inl e \<longrightarrow>
            fst (sendFile sz fs fid p s) = None
            \<and> packets (trace (snd (sendFile sz fs fid p s))) = packets (trace s) @ [DataPacket fid []])
       \<and> (\<forall>fl. fs (root s) p = Inr fl \<and> read_failure fl = None \<longrightarrow>
            fst (sendFile sz fs fid p s) = None
            \<and> packets (trace (snd (sendFile sz fs fid p s)))
                = packets (trace s) @ map (DataPacket fid) (filter (\<lambda>dt. dt \<noteq> []) (chunks_read fl))
                    @ [DataPacket fid []])"
proof (intro conjI allI impI)
  fix e assume o: "fs (root s) p = Inl e"
  from SendMsg_succeeds [OF assms, of "DataPacket fid []"] o
  show "fst (sendFile sz fs fid p s) = None"
    and "packets (trace (snd (sendFile sz fs fid p s))) = packets (trace s) @ [DataPacket fid []]"
    by (simp_all add: sendFile_def DataPacket_def)
next
  fix fl assume "fs (root s) p = Inr fl \<and> read_failure fl = None"
  then have o: "fs (root s) p = Inr fl" and rf: "read_failure fl = None" by simp_all
  let ?c = "CopyBuffer (fileSender_Write sz fid) fl s"
  from CopyBuffer_succeeds [OF assms rf, of sz fid]
  have c1: "fst ?c = None" and c2: "sends_succeed (snd ?c)"
    and c3: "packets (trace (snd ?c))
       = packets (trace s) @ map (DataPacket fid) (filter (\<lambda>dt. dt \<noteq> []) (chunks_read fl))"
    by simp_all
  have sf: "sendFile sz fs fid p s = SendMsg (DataPacket fid []) (snd ?c)"
    using o c1 by (simp add: sendFile_def DataPacket_def case_prod_beta)
  from SendMsg_succeeds [OF c2, of "DataPacket fid []"] c3
  show "fst (sendFile sz fs fid p s) = None"
    and "packets (trace (snd (sendFile sz fs fid p s)))
                = packets (trace s) @ map (DataPacket fid) (filter (\<lambda>dt. dt \<noteq> []) (chunks_read fl))
                    @ [DataPacket fid []]"
    by (simp_all add: sf)
qed

text \<open>
  The file \<^verbatim>\<open>a.txt\<close> is sent in two chunks and a terminator; a file that does not exist
  gets the terminator alone.
\<close>

theorem sendFile_messages_witness:
  "sends_succeed sender_ex
   \<and> fs_ex (root sender_ex) ''a.txt'' = Inr file_ex \<and> read_failure file_ex = None
   \<and> fst (sendFile size_ex fs_ex 0 ''a.txt'' sender_ex) = None
   \<and> packets (trace (snd (sendFile size_ex fs_ex 0 ''a.txt'' sender_ex)))
       = [DataPacket 0 [1, 2, 3], DataPacket 0 [4], DataPacket 0 []]
   \<and> fs_ex (root sender_ex) ''missing'' = Inl (OSError ''no such file or directory'')
   \<and> fst (sendFile size_ex fs_ex 9 ''missing'' sender_ex) = None
   \<and> packets (trace (snd (sendFile size_ex fs_ex 9 ''missing'' sender_ex))) = [DataPacket 9 []]"
proof -
  have h1: "sends_succeed sender_ex" by (simp add: sends_succeed_def sender_ex_def)
  have h2: "fs_ex (root sender_ex) ''a.txt'' = Inr file_ex" by (simp add: fs_ex_def)
  have h3: "read_failure file_ex = None" by (simp add: file_ex_def)
  have h4: "fs_ex (root sender_ex) ''missing'' = Inl (OSError ''no such file or directory'')"
    by (simp add: fs_ex_def)
  have c: "filter (\<lambda>dt. dt \<noteq> []) (chunks_read file_ex) = [[1, 2, 3], [4]]"
    by (simp add: file_ex_def)
  have t: "packets (trace sender_ex) = []" by (simp add: sender_ex_def)
  from sendFile_messages [OF h1, of fs_ex "''a.txt''" size_ex 0] h2 h3
  have a: "fst (sendFile size_ex fs_ex 0 ''a.txt'' sender_ex) = None"
    and b: "packets (trace (snd (sendFile size_ex fs_ex 0 ''a.txt'' sender_ex)))
       = [DataPacket 0 [1, 2, 3], DataPacket 0 [4], DataPacket 0 []]"
    by (simp_all add: c t)
  from sendFile_messages [OF h1, of fs_ex "''missing''" size_ex 9] h4
  have d: "fst (sendFile size_ex fs_ex 9 ''missing'' sender_ex) = None"
    and e: "packets (trace (snd (sendFile size_ex fs_ex 9 ''missing'' sender_ex))) = [DataPacket 9 []]"
    by (simp_all add: t)
  from h1 h2 h3 h4 a b d e show ?thesis by blast
qed

text \<open>
  The claim says that the last \<^verbatim>\<open>Data\<close> message of every content task is the one without
  bytes. When a read fails, \<^verbatim>\<open>sendFile\<close> returns the error of the copy and sends no
  terminator: the last message for the id carries bytes.
\<close>

theorem failed_copy_sends_no_terminator_counterexample:
  "fs_ex (root sender_ex) ''broken'' = Inr broken_file_ex
   \<and> fst (sendFile size_ex fs_ex 5 ''broken'' sender_ex) = Some (OSError ''input/output error'')
   \<and> packets (trace (snd (sendFile size_ex fs_ex 5 ''broken'' sender_ex))) = [DataPacket 5 [1, 2]]
   \<and> Data (last (packets (trace (snd (sendFile size_ex fs_ex 5 ''broken'' sender_ex))))) \<noteq> []"
  by (simp add: sendFile_def fileSender_Write_def updateProgress_def SendMsg_def Stream_SendMsg_def Let_def
        fs_ex_def file_ex_def broken_file_ex_def size_ex_def sender_ex_def DataPacket_def)





text \<open>
  C5. Let the walk task of the sender run to its end on a walk of at most 2^32 entries,
  and let \<open>n\<close> be the position of one of the entries it announces, counted from 0. The
  sender has that entry in its transfer table under the id \<open>n\<close>. The \<^verbatim>\<open>Stat\<close> messages
  it has sent are those of the announced entries, in order, and the terminating one,
  and none carries an id: the field \<^verbatim>\<open>ID\<close> of \<open>StatPacket\<close> is 0. A receiver that is
  still running when it has received \<open>n\<close> \<^verbatim>\<open>Stat\<close> messages with metadata, whatever their
  types, among failed receives and other messages, and then receives the \<^verbatim>\<open>Stat\<close> message
  of that entry, puts the path of the entry into its table of pending requests under the
  same id \<open>n\<close> when the entry is of a plain type, and leaves the table as it is
  otherwise: it is for plain entries only that the receiver ever uses an id. Its loop
  goes on as long as its channel is open.
\<close>

theorem ids_agree:
  assumes "send sz walk s = (None, s1)"
      and "length (announced walk) \<le> 2 ^ 32"
      and "n < length (announced walk)"
      and "run_r rs r = (Waiting, r1)"
      and "length (stats_received rs) = n"
  shows "files s1 (of_nat n) = Some (Path (announced walk ! n))
       \<and> drop (length (packets (trace s))) (packets (trace s1))
           = map (\<lambda>st. StatPacket (Some st)) (announced walk) @ [StatPacket None]
       \<and> files_r (snd (run_r (rs @ [Inr (StatPacket (Some (announced walk ! n)))]) r))
           = (if Mode (announced walk ! n) AND (ModeDir OR ModeSymlink OR ModeNamedPipe OR ModeDevice) = 0
              then (files_r r1)(Path (announced walk ! n) \<mapsto> of_nat n) else files_r r1)
       \<and> (\<not> walkChan_closed r1 \<longrightarrow>
             fst (run_r (rs @ [Inr (StatPacket (Some (announced walk ! n)))]) r) = Waiting)"
proof -
  let ?st = "announced walk ! n"
  from send_None [OF assms(1)] obtain i s0
    where w: "Walk walk (send_cb sz) (0, s) = (None, (i, s0))" and f: "files s1 = files s0"
      and t: "packets (trace s1) = packets (trace s0) @ [StatPacket None]"
    by blast
  from Walk_send_cb_files [OF w assms(2,3)] f
  have a: "files s1 (of_nat n) = Some (Path ?st)" by simp
  from Walk_send_cb [OF w] t
  have b: "drop (length (packets (trace s))) (packets (trace s1))
           = map (\<lambda>st. StatPacket (Some st)) (announced walk) @ [StatPacket None]" by simp
  from run_r_Waiting [OF assms(4)] obtain j
    where l: "receive_loop rs (0, r\<lparr>trace := trace r @ [Go DiffTask]\<rparr>) = (Waiting, (j, r1))" ..
  from receive_loop_counter [OF l] assms(5) have j: "j = of_nat n" by simp
  have run: "run_r (rs @ xs) r = (case receive_loop xs (j, r1) of (res, (k, r2)) \<Rightarrow> (res, r2))" for xs
    using receive_loop_append [OF l, of xs] by (simp add: run_r_def)
  have c: "files_r (snd (run_r (rs @ [Inr (StatPacket (Some ?st))]) r))
           = (if Mode ?st AND (ModeDir OR ModeSymlink OR ModeNamedPipe OR ModeDevice) = 0
              then (files_r r1)(Path ?st \<mapsto> of_nat n) else files_r r1)"
    by (simp add: run j handle_def StatPacket_def Let_def)
  have d: "\<not> walkChan_closed r1 \<longrightarrow> fst (run_r (rs @ [Inr (StatPacket (Some ?st))]) r) = Waiting"
    by (simp add: run handle_def StatPacket_def Let_def)
  from a b c d show ?thesis by blast
qed

text \<open>
  On the small exchange the file \<^verbatim>\<open>a.txt\<close> is the entry 1 of the walk, after the directory
  \<^verbatim>\<open>d\<close>. The receiver has received the \<^verbatim>\<open>Stat\<close> message of \<^verbatim>\<open>d\<close>, a failed receive and a
  request: both sides have \<^verbatim>\<open>a.txt\<close> under the id 1, and the receiver has nothing for
  \<^verbatim>\<open>d\<close>.
\<close>

theorem ids_agree_witness:
  "send size_ex walk_ex sender_ex = (None, snd (send size_ex walk_ex sender_ex))
   \<and> length (announced walk_ex) \<le> 2 ^ 32 \<and> 1 < length (announced walk_ex)
   \<and> run_r (take 3 received_ex) receiver_ex = (Waiting, snd (run_r (take 3 received_ex) receiver_ex))
   \<and> length (stats_received (take 3 received_ex)) = 1
   \<and> announced walk_ex ! 1 = file_stat
   \<and> Mode file_stat AND (ModeDir OR ModeSymlink OR ModeNamedPipe OR ModeDevice) = 0
   \<and> \<not> walkChan_closed (snd (run_r (take 3 received_ex) receiver_ex))
   \<and> files (snd (send size_ex walk_ex sender_ex)) 1 = Some ''a.txt''
   \<and> packets (trace (snd (send size_ex walk_ex sender_ex)))
       = [StatPacket (Some dir_stat), StatPacket (Some file_stat), StatPacket None]
   \<and> take 3 received_ex @ [Inr (StatPacket (Some file_stat))] = received_ex
   \<and> files_r (snd (run_r received_ex receiver_ex)) = [''a.txt'' \<mapsto> 1]
   \<and> fst (run_r received_ex receiver_ex) = Waiting"
proof -
  let ?s1 = "snd (send size_ex walk_ex sender_ex)"
  let ?rs = "take 3 received_ex"
  let ?r1 = "snd (run_r ?rs receiver_ex)"
  let ?m = "ModeDir OR ModeSymlink OR ModeNamedPipe OR ModeDevice"
  have h1: "send size_ex walk_ex sender_ex = (None, ?s1)"
    by (simp add: updateProgress_def SendMsg_def Stream_SendMsg_def send_def send_cb_def
        Wrapf_def Let_def size_ex_def sender_ex_def walk_ex_def dir_stat_def file_stat_def)
  have h2: "length (announced walk_ex) \<le> 2 ^ 32" by (simp add: walk_ex_def)
  have h3: "1 < length (announced walk_ex)" by (simp add: walk_ex_def)
  have h4: "run_r ?rs receiver_ex = (Waiting, ?r1)"
    by (simp add: run_r_def handle_def Let_def receiver_ex_def received_ex_def StatPacket_def
        ReqPacket_def dir_stat_def)
  have h5: "length (stats_received ?rs) = 1"
    by (simp add: received_ex_def StatPacket_def ReqPacket_def)
  have h6: "announced walk_ex ! 1 = file_stat" by (simp add: walk_ex_def)
  have h7: "Mode file_stat AND ?m = 0"
    by (simp add: file_stat_def ModeDir_def ModeSymlink_def ModeNamedPipe_def ModeDevice_def)
  have h8: "\<not> walkChan_closed ?r1"
    by (simp add: run_r_def handle_def Let_def receiver_ex_def received_ex_def StatPacket_def
        ReqPacket_def dir_stat_def)
  have h9: "take 3 received_ex @ [Inr (StatPacket (Some file_stat))] = received_ex"
    by (simp add: received_ex_def)
  have t0: "packets (trace sender_ex) = []" by (simp add: sender_ex_def)
  have f0: "files_r ?r1 = Map.empty"
    by (simp add: run_r_def handle_def Let_def receiver_ex_def received_ex_def StatPacket_def
        ReqPacket_def dir_stat_def ModeDir_def ModeSymlink_def ModeNamedPipe_def ModeDevice_def)
  note T = ids_agree [OF h1 h2 h3 h4 h5, unfolded h6 h9]
  from T have a: "files ?s1 1 = Some ''a.txt''" by (simp add: file_stat_def)
  from T have b: "packets (trace ?s1)
       = [StatPacket (Some dir_stat), StatPacket (Some file_stat), StatPacket None]"
    by (simp add: t0 walk_ex_def)
  from T h7 have c: "files_r (snd (run_r received_ex receiver_ex)) = [''a.txt'' \<mapsto> 1]"
    by (simp add: f0 file_stat_def)
  from T h8 have d: "fst (run_r received_ex receiver_ex) = Waiting" by blast
  from h1 h2 h3 h4 h5 h6 h7 h8 h9 a b c d show ?thesis by blast
qed

text \<open>
  C6. A failed \<^verbatim>\<open>RecvMsg\<close> ends neither loop. \<^verbatim>\<open>sender.run\<close> does on a script of
  results exactly what it does on the script without the failures, and \<^verbatim>\<open>receiver.run\<close>
  returns the same on both, having logged each failure. On a script of failures only,
  neither has returned: both are waiting for the next message.
\<close>

theorem failed_receive_never_returns:
  "run rs s = run (filter (\<lambda>x. \<not> isl x) rs) s
   \<and> fst (run_r rs r) = fst (run_r (filter (\<lambda>x. \<not> isl x) rs) r)
   \<and> (list_all isl rs \<longrightarrow>
        run rs s = (Waiting, s\<lparr>trace := trace s @ [Go SendTask]\<rparr>)
        \<and> run_r rs r = (Waiting, r\<lparr>trace := trace r @ Go DiffTask # map (\<lambda>x. Logged (projl x)) rs\<rparr>))"
proof -
  have "run rs s = run (filter (\<lambda>x. \<not> isl x) rs) s"
    by (simp add: run_def run_loop_filter)
  moreover have "fst (run_r rs r) = fst (run_r (filter (\<lambda>x. \<not> isl x) rs) r)"
    using receive_loop_filter [of rs 0 "r\<lparr>trace := trace r @ [Go DiffTask]\<rparr>"]
    by (simp add: run_r_def case_prod_beta)
  moreover have "list_all isl rs \<longrightarrow> run rs s = (Waiting, s\<lparr>trace := trace s @ [Go SendTask]\<rparr>)"
    by (simp add: run_def run_loop_failures)
  moreover have "list_all isl rs \<longrightarrow>
      run_r rs r = (Waiting, r\<lparr>trace := trace r @ Go DiffTask # map (\<lambda>x. Logged (projl x)) rs\<rparr>)"
    by (simp add: run_r_def receive_loop_failures)
  ultimately show ?thesis by blast
qed

text \<open>
  Two failed receives leave both loops waiting; a \<^verbatim>\<open>Fin\<close> after them is handled as if
  they had not happened.
\<close>

theorem failed_receive_never_returns_witness:
  "list_all isl failures_ex
   \<and> run failures_ex sender_ex = (Waiting, sender_ex\<lparr>trace := [Go SendTask]\<rparr>)
   \<and> run_r failures_ex receiver_ex
       = (Waiting, receiver_ex\<lparr>trace := [Go DiffTask, Logged (TransportError ''connection reset''), Logged EOF]\<rparr>)
   \<and> run (failures_ex @ [Inr FinPacket]) sender_ex = run [Inr FinPacket] sender_ex
   \<and> fst (run_r (failures_ex @ [Inr FinPacket]) receiver_ex) = fst (run_r [Inr FinPacket] receiver_ex)"
proof -
  have h: "list_all isl failures_ex" by (simp add: failures_ex_def)
  have f: "filter (\<lambda>x. \<not> isl x) (failures_ex @ [Inr FinPacket]) = [Inr FinPacket]"
    by (simp add: failures_ex_def)
  have t: "trace sender_ex = []" "trace receiver_ex = []"
    by (simp_all add: sender_ex_def receiver_ex_def)
  have m: "map (\<lambda>x. Logged (projl x)) failures_ex = [Logged (TransportError ''connection reset''), Logged EOF]"
    by (simp add: failures_ex_def)
  note T = failed_receive_never_returns [of failures_ex sender_ex receiver_ex]
  from T h have "run failures_ex sender_ex = (Waiting, sender_ex\<lparr>trace := trace sender_ex @ [Go SendTask]\<rparr>)"
    by blast
  then have a: "run failures_ex sender_ex = (Waiting, sender_ex\<lparr>trace := [Go SendTask]\<rparr>)"
    by (simp add: t)
  from T h have "run_r failures_ex receiver_ex
       = (Waiting, receiver_ex\<lparr>trace := trace receiver_ex @ Go DiffTask # map (\<lambda>x. Logged (projl x)) failures_ex\<rparr>)"
    by blast
  then have b: "run_r failures_ex receiver_ex
       = (Waiting, receiver_ex\<lparr>trace := [Go DiffTask, Logged (TransportError ''connection reset''), Logged EOF]\<rparr>)"
    by (simp add: t m)
  note a b
  moreover from failed_receive_never_returns [of "failures_ex @ [Inr FinPacket]" sender_ex receiver_ex]
  have "run (failures_ex @ [Inr FinPacket]) sender_ex = run [Inr FinPacket] sender_ex"
    and "fst (run_r (failures_ex @ [Inr FinPacket]) receiver_ex) = fst (run_r [Inr FinPacket] receiver_ex)"
    unfolding f by simp_all
  ultimately show ?thesis using h by blast
qed

text \<open>
  C7. On a \<^verbatim>\<open>Fin\<close> message the sender, still running after the results \<open>pre\<close>, calls
  \<^verbatim>\<open>SendMsg\<close> once with a \<^verbatim>\<open>Fin\<close> message and returns what it returns: \<^verbatim>\<open>nil\<close> when the
  message was sent, and then exactly that one message was sent. The receiver returns
  \<^verbatim>\<open>nil\<close> at once, its state unchanged. And a loop that returns \<^verbatim>\<open>nil\<close> has received a
  \<^verbatim>\<open>Fin\<close> message and was still running before it.
\<close>

theorem fin_ends_the_loops:
  "(Type p = PACKET_FIN \<and> run pre s = (Waiting, s1) \<longrightarrow>
      run (pre @ Inr p # rest) s
        = (Returned (fst (SendMsg FinPacket s1)), updateProgress 0 True (snd (SendMsg FinPacket s1)))
      \<and> packets (trace (snd (run (pre @ Inr p # rest) s)))
        = packets (trace s1) @ (if fst (SendMsg FinPacket s1) = None then [FinPacket] else []))
   \<and> (Type p = PACKET_FIN \<and> run_r pre r = (Waiting, r1) \<longrightarrow>
        run_r (pre @ Inr p # rest) r = (Returned None, r1))
   \<and> (fst (run rs s) = Returned None \<longrightarrow>
        (\<exists>pre q rest. rs = pre @ Inr q # rest \<and> Type q = PACKET_FIN \<and> fst (run pre s) = Waiting))
   \<and> (fst (run_r rs r) = Returned None \<longrightarrow>
        (\<exists>pre q rest. rs = pre @ Inr q # rest \<and> Type q = PACKET_FIN \<and> fst (run_r pre r) = Waiting))"
proof -
  have a: "run (pre @ Inr p # rest) s
        = (Returned (fst (SendMsg FinPacket s1)), updateProgress 0 True (snd (SendMsg FinPacket s1)))"
    if "Type p = PACKET_FIN" "run pre s = (Waiting, s1)"
    using run_append [OF that(2), of "Inr p # rest"] that(1)
    by (simp add: FinPacket_def case_prod_beta)
  have b: "packets (trace (snd (run (pre @ Inr p # rest) s)))
        = packets (trace s1) @ (if fst (SendMsg FinPacket s1) = None then [FinPacket] else [])"
    if "Type p = PACKET_FIN" "run pre s = (Waiting, s1)"
    using a [OF that] by (simp add: SendMsg_packets)
  have c: "run_r (pre @ Inr p # rest) r = (Returned None, r1)"
    if "Type p = PACKET_FIN" "run_r pre r = (Waiting, r1)"
  proof -
    from run_r_Waiting [OF that(2)] obtain i
      where "receive_loop pre (0, r\<lparr>trace := trace r @ [Go DiffTask]\<rparr>) = (Waiting, (i, r1))" ..
    from receive_loop_append [OF this, of "Inr p # rest"] that(1) show ?thesis
      by (simp add: run_r_def handle_def)
  qed
  have d: "\<exists>pre q rest. rs = pre @ Inr q # rest \<and> Type q = PACKET_FIN \<and> fst (run pre s) = Waiting"
    if "fst (run rs s) = Returned None"
  proof -
    let ?s0 = "s\<lparr>trace := trace s @ [Go SendTask]\<rparr>"
    from that have "fst (run_loop rs ?s0) = Returned None"
      by (auto simp: run_def split: prod.splits outcome.splits)
    from run_loop_Returned_None [OF this] obtain pre q rest s1
      where "rs = pre @ Inr q # rest" "Type q = PACKET_FIN" "run_loop pre ?s0 = (Waiting, s1)"
      by blast
    then have "rs = pre @ Inr q # rest \<and> Type q = PACKET_FIN \<and> fst (run pre s) = Waiting"
      by (simp add: run_def)
    then show ?thesis by blast
  qed
  have e: "\<exists>pre q rest. rs = pre @ Inr q # rest \<and> Type q = PACKET_FIN \<and> fst (run_r pre r) = Waiting"
    if "fst (run_r rs r) = Returned None"
  proof -
    let ?st = "(0, r\<lparr>trace := trace r @ [Go DiffTask]\<rparr>)"
    from that have "fst (receive_loop rs ?st) = Returned None"
      by (simp add: run_r_def case_prod_beta)
    from receive_loop_Returned_None [OF this] obtain pre q rest st1
      where "rs = pre @ Inr q # rest" "Type q = PACKET_FIN" "receive_loop pre ?st = (Waiting, st1)"
      by blast
    then have "rs = pre @ Inr q # rest \<and> Type q = PACKET_FIN \<and> fst (run_r pre r) = Waiting"
      by (simp add: run_r_def case_prod_beta)
    then show ?thesis by blast
  qed
  from a b c d e show ?thesis by blast
qed

text \<open>
  A \<^verbatim>\<open>Fin\<close> as the first message: the sender echoes it and returns, the receiver
  returns; what follows it in the script is not read.
\<close>

theorem fin_ends_the_loops_witness:
  "Type FinPacket = PACKET_FIN
   \<and> run [] sender_ex = (Waiting, sender_ex\<lparr>trace := [Go SendTask]\<rparr>)
   \<and> run ([] @ Inr FinPacket # [Inr (ReqPacket 7)]) sender_ex
       = (Returned None, sender_ex\<lparr>trace := [Go SendTask, Sent FinPacket, Progress 0 True]\<rparr>)
   \<and> run_r [] receiver_ex = (Waiting, receiver_ex\<lparr>trace := [Go DiffTask]\<rparr>)
   \<and> run_r ([] @ Inr FinPacket # [Inr (DataPacket 7 [1])]) receiver_ex
       = (Returned None, receiver_ex\<lparr>trace := [Go DiffTask]\<rparr>)
   \<and> (\<exists>pre q rest. [Inr (StatPacket None), Inr FinPacket] = pre @ Inr q # rest \<and> Type q = PACKET_FIN
         \<and> fst (run pre sender_ex) = Waiting)
   \<and> (\<exists>pre q rest. [Inr (StatPacket None), Inr FinPacket] = pre @ Inr q # rest \<and> Type q = PACKET_FIN
         \<and> fst (run_r pre receiver_ex) = Waiting)"
proof -
  let ?s1 = "sender_ex\<lparr>trace := [Go SendTask]\<rparr>" and ?r1 = "receiver_ex\<lparr>trace := [Go DiffTask]\<rparr>"
  let ?rs = "[Inr (StatPacket None), Inr FinPacket]"
  have h0: "Type FinPacket = PACKET_FIN" by (simp add: FinPacket_def)
  have h1: "run [] sender_ex = (Waiting, ?s1)" by (simp add: run_def queue_def SendMsg_def Stream_SendMsg_def updateProgress_def sender_ex_def
        run_r_def handle_def Let_def receiver_ex_def StatPacket_def FinPacket_def DataPacket_def
        ReqPacket_def PipeWriter_Write_def PipeWriter_Close_def)
  have h2: "run_r [] receiver_ex = (Waiting, ?r1)" by (simp add: run_def queue_def SendMsg_def Stream_SendMsg_def updateProgress_def sender_ex_def
        run_r_def handle_def Let_def receiver_ex_def StatPacket_def FinPacket_def DataPacket_def
        ReqPacket_def PipeWriter_Write_def PipeWriter_Close_def)
  have h3: "fst (run ?rs sender_ex) = Returned None" by (simp add: run_def queue_def SendMsg_def Stream_SendMsg_def updateProgress_def sender_ex_def
        run_r_def handle_def Let_def receiver_ex_def StatPacket_def FinPacket_def DataPacket_def
        ReqPacket_def PipeWriter_Write_def PipeWriter_Close_def)
  have h4: "fst (run_r ?rs receiver_ex) = Returned None" by (simp add: run_def queue_def SendMsg_def Stream_SendMsg_def updateProgress_def sender_ex_def
        run_r_def handle_def Let_def receiver_ex_def StatPacket_def FinPacket_def DataPacket_def
        ReqPacket_def PipeWriter_Write_def PipeWriter_Close_def)
  have sm: "SendMsg FinPacket ?s1 = (None, sender_ex\<lparr>trace := [Go SendTask, Sent FinPacket]\<rparr>)"
    by (simp add: run_def queue_def SendMsg_def Stream_SendMsg_def updateProgress_def sender_ex_def
        run_r_def handle_def Let_def receiver_ex_def StatPacket_def FinPacket_def DataPacket_def
        ReqPacket_def PipeWriter_Write_def PipeWriter_Close_def)
  note T = fin_ends_the_loops [of FinPacket "[]" sender_ex ?s1 "[Inr (ReqPacket 7)]"
      receiver_ex ?r1 ?rs]
  from T h0 h1 have a: "run ([] @ Inr FinPacket # [Inr (ReqPacket 7)]) sender_ex
       = (Returned None, sender_ex\<lparr>trace := [Go SendTask, Sent FinPacket, Progress 0 True]\<rparr>)"
    by (simp add: sm) (simp add: run_def queue_def SendMsg_def Stream_SendMsg_def updateProgress_def sender_ex_def
        run_r_def handle_def Let_def receiver_ex_def StatPacket_def FinPacket_def DataPacket_def
        ReqPacket_def PipeWriter_Write_def PipeWriter_Close_def)
  note T' = fin_ends_the_loops [of FinPacket "[]" sender_ex ?s1 "[Inr (DataPacket 7 [1])]"
      receiver_ex ?r1 ?rs]
  from T' h0 h2 have b: "run_r ([] @ Inr FinPacket # [Inr (DataPacket 7 [1])]) receiver_ex = (Returned None, ?r1)"
    by blast
  from T h3 have c: "\<exists>pre q rest. ?rs = pre @ Inr q # rest \<and> Type q = PACKET_FIN
         \<and> fst (run pre sender_ex) = Waiting" by blast
  from T h4 have d: "\<exists>pre q rest. ?rs = pre @ Inr q # rest \<and> Type q = PACKET_FIN
         \<and> fst (run_r pre receiver_ex) = Waiting" by blast
  from h0 h1 h2 a b c d show ?thesis by blast
qed




text \<open>
  C10. \<^verbatim>\<open>Receive\<close> does not depend on its context argument: it returns the same result
  and the same receiver for any two contexts, a cancelled one too. The context of the
  receiver is derived from \<^verbatim>\<open>context.Background()\<close> and is not done.
\<close>

theorem Receive_ignores_its_context:
  "Receive c conn d = Receive c' conn d
   \<and> ctx_r (snd (Receive c conn d)) = WithCancel Background
   \<and> \<not> Done (ctx_r (snd (Receive c conn d)))"
proof -
  have "ctx_r (snd (Receive c conn d)) = WithCancel Background"
    by (simp add: Receive_def Let_def run_r_def case_prod_beta receive_loop_ctx_r)
  then show ?thesis by (simp add: Receive_def)
qed

text \<open>
  A cancelled context and the background context give the same run.
\<close>

theorem Receive_ignores_its_context_witness:
  "Receive Canceled \<lparr>RecvMsg_results = [Inr FinPacket], SendMsg_results = []\<rparr> ''/dst''
     = Receive Background \<lparr>RecvMsg_results = [Inr FinPacket], SendMsg_results = []\<rparr> ''/dst''
   \<and> Done Canceled
   \<and> fst (Receive Canceled \<lparr>RecvMsg_results = [Inr FinPacket], SendMsg_results = []\<rparr> ''/dst'')
       = Returned None"
  using Receive_ignores_its_context
    [of Canceled "\<lparr>RecvMsg_results = [Inr FinPacket], SendMsg_results = []\<rparr>" "''/dst''" Background]
  by (simp add: Receive_def run_r_def handle_def Let_def receiver_ex_def StatPacket_def FinPacket_def DataPacket_def
        ReqPacket_def PipeWriter_Write_def PipeWriter_Close_def)

end
